theory Spec2Isabelle
  imports Main
begin

section \<open>JavaScript values and objects\<close>

text \<open>
  The library receives plain JavaScript data. A value is \<open>undefined\<close>, \<open>null\<close>, a
  boolean, a number, a string, an array or an object. Numbers are modelled by their
  integer values (no operation of the library computes with them; only the test
  whether a \<open>length\<close> property is a valid array length looks at one). A string is the
  list of its characters, a character outside ASCII being held as the chars (from 128
  on) of its UTF-8 encoding. An object is the list of its own enumerable properties in
  the order \<open>Object.keys\<close> reports them, with pairwise different names. Only own
  properties are modelled: \<open>getProp\<close>, \<open>hasProp\<close> and \<open>map_of\<close> read the own properties
  of an object, not what it inherits from its prototype.
\<close>

datatype jsval =
    Undefined
  | Null
  | Bool bool
  | Num int
  | Str string
  | Arr "jsval list"
  | Obj "(string \<times> jsval) list"

type_synonym jsobj = "(string \<times> jsval) list"

text \<open>
  Reading the own property \<open>obj[k]\<close>: a missing one reads as \<open>undefined\<close>. (The
  library reads this way only properties of objects it created itself or names that
  \<open>Object.prototype\<close> does not have.)
\<close>

definition getProp :: "jsobj \<Rightarrow> string \<Rightarrow> jsval" where
  "getProp obj k = (case map_of obj k of None \<Rightarrow> Undefined | Some v \<Rightarrow> v)"

text \<open>\<open>k in obj\<close> for own properties.\<close>

definition hasProp :: "jsobj \<Rightarrow> string \<Rightarrow> bool" where
  "hasProp obj k = (map_of obj k \<noteq> None)"

text \<open>
  A property name is an array index when it is the decimal numeral of an integer from
  0 to \<open>2^32 - 2\<close>, without leading zeros. JavaScript lists such properties first, in
  ascending order, and the others after them in the order of their creation.
\<close>

definition isDigit :: "char \<Rightarrow> bool" where
  "isDigit c = (c \<in> set ''0123456789'')"

definition digitValue :: "char \<Rightarrow> nat" where
  "digitValue c =
     (case map_of (zip ''0123456789'' [0, 1, 2, 3, 4, 5, 6, 7, 8, 9]) c of None \<Rightarrow> 0 | Some d \<Rightarrow> d)"

definition readNat :: "string \<Rightarrow> nat" where
  "readNat k = fold (\<lambda>c n. 10 * n + digitValue c) k 0"

definition isIndex :: "string \<Rightarrow> bool" where
  "isIndex k =
     (k \<noteq> [] \<and> list_all isDigit k \<and> (length k = 1 \<or> hd k \<noteq> CHR ''0'')
      \<and> readNat k < 4294967295)"

text \<open>Overwriting the own property \<open>k\<close>, which keeps its place.\<close>

fun replaceProp :: "jsobj \<Rightarrow> string \<Rightarrow> jsval \<Rightarrow> jsobj" where
  "replaceProp [] k v = []"
| "replaceProp ((k', v') # obj) k v =
     (if k' = k then (k, v) # obj else (k', v') # replaceProp obj k v)"

text \<open>Creating the array-index property \<open>k\<close>: it goes after the smaller indices.\<close>

fun insertIndex :: "jsobj \<Rightarrow> string \<Rightarrow> jsval \<Rightarrow> jsobj" where
  "insertIndex [] k v = [(k, v)]"
| "insertIndex ((k', v') # obj) k v =
     (if isIndex k' \<and> readNat k' < readNat k
      then (k', v') # insertIndex obj k v
      else (k, v) # (k', v') # obj)"

text \<open>
  Writing \<open>obj[k] = v\<close> on an ordinary object. An own property is overwritten in its
  place. Otherwise the name \<open>__proto__\<close> is the accessor inherited from
  \<open>Object.prototype\<close>: the assignment calls its setter, which changes the prototype
  (for an object or \<open>null\<close>) or does nothing, and creates no property. Any other name
  becomes a new own property: an array index among the indices, another name last.
\<close>

definition setProp :: "jsobj \<Rightarrow> string \<Rightarrow> jsval \<Rightarrow> jsobj" where
  "setProp obj k v =
     (if hasProp obj k then replaceProp obj k v
      else if k = ''__proto__'' then obj
      else if isIndex k then insertIndex obj k v
      else obj @ [(k, v)])"

text \<open>\<open>delete obj[k]\<close>.\<close>

definition deleteProp :: "jsobj \<Rightarrow> string \<Rightarrow> jsobj" where
  "deleteProp obj k = filter (\<lambda>p. fst p \<noteq> k) obj"

text \<open>The truth value JavaScript gives a value in \<open>if (v)\<close> and \<open>a && b\<close>.\<close>

fun truthy :: "jsval \<Rightarrow> bool" where
  "truthy Undefined = False"
| "truthy Null = False"
| "truthy (Bool b) = b"
| "truthy (Num n) = (n \<noteq> 0)"
| "truthy (Str s) = (s \<noteq> [])"
| "truthy (Arr xs) = True"
| "truthy (Obj kvs) = True"

text \<open>
  \<open>v.k\<close> for the two names \<open>where\<close> reads from its filter argument (\<open>condition\<close>
  and \<open>keys\<close>). Strings, numbers and booleans have no property \<open>condition\<close>, nor has
  an array; \<open>keys\<close> is read only after \<open>condition\<close> was truthy, hence only from an
  object.
\<close>

definition getMember :: "jsval \<Rightarrow> string \<Rightarrow> jsval" where
  "getMember v k = (case v of Obj kvs \<Rightarrow> getProp kvs k | _ \<Rightarrow> Undefined)"

section \<open>The lodash functions the library calls\<close>

text \<open>
  lodash is a dependency (\<open>package.json\<close>: lodash 4.17), not code of this repository;
  the five functions imported in line 4 are modelled after its documentation.

  The key handed to an iteratee is the property name for an object and the index (a
  number) for an array or anything array-like.
\<close>

datatype key = Name string | Index nat

definition digitChar :: "nat \<Rightarrow> char" where
  "digitChar d = ''0123456789'' ! d"

function showNat :: "nat \<Rightarrow> string" where
  "showNat n = (if n < 10 then [digitChar n] else showNat (n div 10) @ [digitChar (n mod 10)])"
  by pat_completeness auto
termination
  by (relation "measure (\<lambda>n. n)") auto

declare showNat.simps [simp del]

text \<open>\<open>String(key)\<close>, as \<open>"#" + key\<close> and a template literal convert a key.\<close>

fun keyString :: "key \<Rightarrow> string" where
  "keyString (Name s) = s"
| "keyString (Index i) = showNat i"

text \<open>The key as the value stored by \<open>names["#" + key] = key\<close>.\<close>

fun keyValue :: "key \<Rightarrow> jsval" where
  "keyValue (Name s) = Str s"
| "keyValue (Index i) = Num (int i)"

text \<open>\<open>isLength\<close>: a number that is a non-negative integer up to \<open>2^53 - 1\<close>.\<close>

fun isLength :: "jsval \<Rightarrow> bool" where
  "isLength (Num n) = (0 \<le> n \<and> n \<le> 9007199254740991)"
| "isLength _ = False"

text \<open>
  \<open>isArrayLike(v)\<close>: \<open>v != null && isLength(v.length) && !isFunction(v)\<close>. A string and
  an array have a valid \<open>length\<close>; an object is array-like when its \<open>length\<close> property
  is a valid length.
\<close>

fun isArrayLike :: "jsval \<Rightarrow> bool" where
  "isArrayLike (Str s) = True"
| "isArrayLike (Arr xs) = True"
| "isArrayLike (Obj kvs) = isLength (getProp kvs ''length'')"
| "isArrayLike _ = False"

text \<open>\<open>v.length\<close> of an array-like value.\<close>

fun lengthOf :: "jsval \<Rightarrow> nat" where
  "lengthOf (Str s) = length s"
| "lengthOf (Arr xs) = length xs"
| "lengthOf (Obj kvs) = (case getProp kvs ''length'' of Num n \<Rightarrow> nat n | _ \<Rightarrow> 0)"
| "lengthOf _ = 0"

text \<open>\<open>Object(v)[i]\<close> for an index \<open>i\<close> below the length of an array-like value.\<close>

fun elementAt :: "jsval \<Rightarrow> nat \<Rightarrow> jsval" where
  "elementAt (Str s) i = (if i < length s then Str [s ! i] else Undefined)"
| "elementAt (Arr xs) i = (if i < length xs then xs ! i else Undefined)"
| "elementAt (Obj kvs) i = getProp kvs (showNat i)"
| "elementAt _ i = Undefined"

text \<open>
  \<open>forEach(collection, iteratee)\<close> calls \<open>iteratee(value, key)\<close> once per element;
  \<open>forEachEntries\<close> is the list of these (value, key) pairs in call order. Nothing is
  visited for \<open>undefined\<close> and \<open>null\<close>. An array and every array-like value is
  visited by index from 0 to its length (lodash: "objects with a length property are
  iterated like arrays"); any other object by its own enumerable properties; a number
  or a boolean has none. None of the library's iteratees returns \<open>false\<close>, so no
  iteration stops early. (The library declares its arguments as objects; for a string
  the visit character by character is exact when the string is ASCII.)
\<close>

definition forEachEntries :: "jsval \<Rightarrow> (jsval \<times> key) list" where
  "forEachEntries c =
     (if c = Undefined \<or> c = Null then []
      else if isArrayLike c then map (\<lambda>i. (elementAt c i, Index i)) [0 ..< lengthOf c]
      else (case c of Obj kvs \<Rightarrow> map (\<lambda>(k, v). (v, Name k)) kvs | _ \<Rightarrow> []))"

text \<open>
  \<open>upperFirst(s)\<close> converts the first character of \<open>String(s)\<close> to upper case with
  \<open>String.prototype.toUpperCase\<close>. On an ASCII character that maps \<open>a..z\<close> to \<open>A..Z\<close>
  and leaves every other character as it is. For a first character outside ASCII the
  result is given by the Unicode case mapping of the JavaScript engine (it can be
  longer than the argument); the model leaves it unspecified, so that what is proved
  holds whatever that mapping is.
\<close>

definition isAscii :: "char \<Rightarrow> bool" where
  "isAscii c = (\<not> digit7 c)"

definition toUpperCase :: "char \<Rightarrow> char" where
  "toUpperCase c =
     (case map_of (zip ''abcdefghijklmnopqrstuvwxyz'' ''ABCDEFGHIJKLMNOPQRSTUVWXYZ'') c of
        None \<Rightarrow> c | Some u \<Rightarrow> u)"

definition unicodeUpperFirst :: "string \<Rightarrow> string" where
  "unicodeUpperFirst = undefined"

fun upperFirst :: "string \<Rightarrow> string" where
  "upperFirst [] = []"
| "upperFirst (c # cs) = (if isAscii c then toUpperCase c # cs else unicodeUpperFirst (c # cs))"

text \<open>\<open>join(array, separator)\<close> on an array of strings.\<close>

fun join :: "string list \<Rightarrow> string \<Rightarrow> string" where
  "join [] sep = []"
| "join [s] sep = s"
| "join (s # t # ss) sep = s @ sep @ join (t # ss) sep"

text \<open>\<open>isArray(v)\<close>.\<close>

fun isArray :: "jsval \<Rightarrow> bool" where
  "isArray (Arr xs) = True"
| "isArray _ = False"

text \<open>
  \<open>size(collection)\<close>: 0 for \<open>undefined\<close> and \<open>null\<close>, the length of an array-like
  value, otherwise the number of own enumerable properties.
\<close>

definition size_of :: "jsval \<Rightarrow> nat" where
  "size_of c =
     (if c = Undefined \<or> c = Null then 0
      else if isArrayLike c then lengthOf c
      else (case c of Obj kvs \<Rightarrow> length kvs | _ \<Rightarrow> 0))"

section \<open>The table handle\<close>

text \<open>
  \<open>aws-sdk\<close> is the other dependency. Its \<open>DocumentClient\<close> is modelled by the options
  object its constructor receives; what the store answers to a request is a parameter
  of the operations (see \<open>sdk\<close> below).
\<close>

record DocumentClient =
  options :: jsobj

record DynamoRecord =
  tableName :: string
  dynamoClient :: DocumentClient

text \<open>
  Lines 22-28. The options object is written \<open>{ tableRegion }\<close>, the shorthand for
  \<open>{ tableRegion: tableRegion }\<close>.
\<close>

definition constructor :: "string \<Rightarrow> string \<Rightarrow> DynamoRecord" where
  "constructor tableName' tableRegion =
     \<lparr> tableName = tableName',
       dynamoClient = \<lparr> options = [(''tableRegion'', Str tableRegion)] \<rparr> \<rparr>"

section \<open>Merging the caller's configuration\<close>

text \<open>
  Lines 7-15: \<open>assignConfig\<close> copies \<open>params\<close> and writes every visited entry of
  \<open>config\<close> under its capitalised key.
\<close>

definition assignConfig :: "jsobj \<Rightarrow> jsval \<Rightarrow> jsobj" where
  "assignConfig params config =
     fold (\<lambda>(value, key) paramsToReturn. setProp paramsToReturn (upperFirst (keyString key)) value)
       (forEachEntries config) params"

text \<open>
  The same function over an explicit store of objects, to tell the copy from its
  original: \<open>params\<close> is the address of the argument, \<open>{ ...params }\<close> allocates a new
  object, and every write goes to the new address.
\<close>

type_synonym heap = "jsobj list"

definition alloc :: "heap \<Rightarrow> jsobj \<Rightarrow> heap \<times> nat" where
  "alloc hp obj = (hp @ [obj], length hp)"

definition assignConfig_heap :: "heap \<Rightarrow> nat \<Rightarrow> jsval \<Rightarrow> heap \<times> nat" where
  "assignConfig_heap hp params config =
     (let (hp1, paramsToReturn) = alloc hp (hp ! params) in
      (fold (\<lambda>(value, key) h.
               h[paramsToReturn := setProp (h ! paramsToReturn) (upperFirst (keyString key)) value])
         (forEachEntries config) hp1,
       paramsToReturn))"

section \<open>Building the requests\<close>

text \<open>The store primitives of the document client.\<close>

datatype storeOp = Get | Query | Scan | Put | BatchWrite | Update | Delete

text \<open>\<open>params[field][k] = v\<close>, where \<open>params[field]\<close> holds an object.\<close>

definition setNested :: "jsobj \<Rightarrow> string \<Rightarrow> string \<Rightarrow> jsval \<Rightarrow> jsobj" where
  "setNested params field k v =
     (case getProp params field of
        Obj m \<Rightarrow> setProp params field (Obj (setProp m k v))
      | _ \<Rightarrow> params)"

text \<open>\<open>isArray(value) && value.length === 2\<close>.\<close>

definition isBetween :: "jsval \<Rightarrow> bool" where
  "isBetween value = (isArray value \<and> lengthOf value = 2)"

text \<open>
  Lines 86-92 and 114-120: \<open>value.forEach((v, k) => ...)\<close> binds element 0 to
  \<open>:keyStart\<close> and element 1 to \<open>:keyEnd\<close>.
\<close>

definition bindRange :: "jsobj \<Rightarrow> string \<Rightarrow> jsval \<Rightarrow> jsobj" where
  "bindRange params ks value =
     (case value of
        Arr vs \<Rightarrow>
          fold (\<lambda>(v, k) p.
                  if k = (0::nat) then setNested p ''ExpressionAttributeValues'' ('':'' @ ks @ ''Start'') v
                  else if k = 1 then setNested p ''ExpressionAttributeValues'' ('':'' @ ks @ ''End'') v
                  else p)
            (zip vs [0 ..< length vs]) params
      | _ \<Rightarrow> params)"

text \<open>Lines 81-97: the iteratee over the primary key; the state is \<open>params\<close> and \<open>primaryKeyArray\<close>.\<close>

definition whereKeyIteratee :: "jsval \<times> key \<Rightarrow> jsobj \<times> string list \<Rightarrow> jsobj \<times> string list" where
  "whereKeyIteratee entry state =
     (let (value, key) = entry; (params, primaryKeyArray) = state;
          ks = keyString key;
          params = setNested params ''ExpressionAttributeNames'' (''#'' @ ks) (keyValue key)
      in if isBetween value
         then (bindRange params ks value,
               primaryKeyArray @ [''#'' @ ks @ '' BETWEEN :'' @ ks @ ''Start AND :'' @ ks @ ''End''])
         else (setNested params ''ExpressionAttributeValues'' ('':'' @ ks) value,
               primaryKeyArray @ [''#'' @ ks @ '' = :'' @ ks]))"

text \<open>Lines 110-124: the iteratee over the filter's keys.\<close>

definition whereFilterIteratee :: "jsval \<times> key \<Rightarrow> jsobj \<Rightarrow> jsobj" where
  "whereFilterIteratee entry params =
     (let (value, key) = entry;
          ks = keyString key;
          params = setNested params ''ExpressionAttributeNames'' (''#'' @ ks) (keyValue key)
      in if isBetween value
         then bindRange params ks value
         else setNested params ''ExpressionAttributeValues'' ('':'' @ ks) value)"

text \<open>Lines 69-74.\<close>

definition where_initial :: "DynamoRecord \<Rightarrow> jsobj" where
  "where_initial this =
     [(''TableName'', Str (tableName this)),
      (''ExpressionAttributeNames'', Obj []),
      (''ExpressionAttributeValues'', Obj []),
      (''ReturnConsumedCapacity'', Str ''TOTAL'')]"

text \<open>Lines 76-101.\<close>

definition where_key :: "jsobj \<Rightarrow> jsval \<Rightarrow> jsobj" where
  "where_key params primaryKey =
     (if truthy primaryKey
      then (let (params, primaryKeyArray) =
                  fold whereKeyIteratee (forEachEntries primaryKey) (params, [])
            in setProp params ''KeyConditionExpression'' (Str (join primaryKeyArray '' AND '')))
      else params)"

text \<open>Lines 103-125.\<close>

definition where_filter :: "jsobj \<Rightarrow> jsval \<Rightarrow> jsobj" where
  "where_filter params filterExpression =
     (if truthy filterExpression \<and> truthy (getMember filterExpression ''condition'')
           \<and> truthy (getMember filterExpression ''keys'')
      then fold whereFilterIteratee (forEachEntries (getMember filterExpression ''keys''))
             (setProp params ''FilterExpression'' (getMember filterExpression ''condition''))
      else params)"

text \<open>Lines 127-133.\<close>

definition where_prune :: "jsobj \<Rightarrow> jsobj" where
  "where_prune params =
     (let params = (if size_of (getProp params ''ExpressionAttributeNames'') = 0
                    then deleteProp params ''ExpressionAttributeNames'' else params)
      in if size_of (getProp params ''ExpressionAttributeValues'') = 0
         then deleteProp params ''ExpressionAttributeValues'' else params)"

text \<open>
  Lines 63-157: the primitive \<open>where\<close> calls and the parameters it passes.
\<close>

definition where_request :: "DynamoRecord \<Rightarrow> jsval \<Rightarrow> jsval \<Rightarrow> jsval \<Rightarrow> storeOp \<times> jsobj" where
  "where_request this primaryKey filterExpression config =
     (let params = where_initial this;
          params = where_key params primaryKey;
          params = where_filter params filterExpression;
          params = where_prune params;
          params = (if truthy config then assignConfig params config else params)
      in (if truthy primaryKey then Query else Scan, params))"

text \<open>Lines 35-48.\<close>

definition find_request :: "DynamoRecord \<Rightarrow> jsval \<Rightarrow> jsval \<Rightarrow> storeOp \<times> jsobj" where
  "find_request this primaryKey config =
     (let params = [(''TableName'', Str (tableName this)),
                    (''Key'', primaryKey),
                    (''ConsistentRead'', Bool True),
                    (''ReturnConsumedCapacity'', Str ''TOTAL'')];
          params = (if truthy config then assignConfig params config else params)
      in (Get, params))"

text \<open>Lines 165-176.\<close>

definition getAll_request :: "DynamoRecord \<Rightarrow> jsval \<Rightarrow> storeOp \<times> jsobj" where
  "getAll_request this config =
     (let params = [(''TableName'', Str (tableName this)),
                    (''ReturnConsumedCapacity'', Str ''TOTAL'')];
          params = (if truthy config then assignConfig params config else params)
      in (Scan, params))"

text \<open>Lines 191-202.\<close>

definition create_request :: "DynamoRecord \<Rightarrow> jsval \<Rightarrow> jsval \<Rightarrow> storeOp \<times> jsobj" where
  "create_request this createData config =
     (let params = [(''TableName'', Str (tableName this)),
                    (''Item'', createData)];
          params = (if truthy config then assignConfig params config else params)
      in (Put, params))"

text \<open>Lines 217-231; \<open>createData\<close> is an array (\<open>Object[]\<close>).\<close>

definition batchCreate_request :: "DynamoRecord \<Rightarrow> jsval list \<Rightarrow> jsval \<Rightarrow> storeOp \<times> jsobj" where
  "batchCreate_request this createData config =
     (let params = [(''RequestItems'',
                     Obj [(tableName this,
                           Arr (map (\<lambda>item. Obj [(''PutRequest'', Obj [(''Item'', item)])]) createData))])];
          params = (if truthy config then assignConfig params config else params)
      in (BatchWrite, params))"

text \<open>Lines 263-267: the iteratee over the update data; the state is \<open>params\<close> and \<open>updateExpression\<close>.\<close>

definition updateIteratee :: "jsval \<times> key \<Rightarrow> jsobj \<times> string list \<Rightarrow> jsobj \<times> string list" where
  "updateIteratee entry state =
     (let (value, key) = entry; (params, updateExpression) = state;
          ks = keyString key;
          updateExpression = updateExpression @ [''#'' @ ks @ '' = :'' @ ks];
          params = setNested params ''ExpressionAttributeNames'' (''#'' @ ks) (keyValue key);
          params = setNested params ''ExpressionAttributeValues'' ('':'' @ ks) value
      in (params, updateExpression))"

text \<open>Lines 247-277.\<close>

definition update_request :: "DynamoRecord \<Rightarrow> jsval \<Rightarrow> jsval \<Rightarrow> jsval \<Rightarrow> storeOp \<times> jsobj" where
  "update_request this primaryKey updateData config =
     (let params = [(''TableName'', Str (tableName this)),
                    (''Key'', primaryKey),
                    (''ExpressionAttributeNames'', Obj []),
                    (''ExpressionAttributeValues'', Obj []),
                    (''ReturnValues'', Str ''ALL_NEW'')];
          params = (if truthy updateData
                    then (let (params, updateExpression) =
                                fold updateIteratee (forEachEntries updateData) (params, [])
                          in setProp params ''UpdateExpression''
                               (Str (''set '' @ join updateExpression '', '')))
                    else params);
          params = (if truthy config then assignConfig params config else params)
      in (Update, params))"

text \<open>Lines 287-298.\<close>

definition destroy_request :: "DynamoRecord \<Rightarrow> jsval \<Rightarrow> jsval \<Rightarrow> storeOp \<times> jsobj" where
  "destroy_request this primaryKey config =
     (let params = [(''TableName'', Str (tableName this)),
                    (''Key'', primaryKey)];
          params = (if truthy config then assignConfig params config else params)
      in (Delete, params))"

section \<open>The promise around the store call\<close>

text \<open>
  Every operation hands the store primitive a callback \<open>(error, data) => ...\<close> that
  rejects the promise with \<open>error\<close> when it is truthy and resolves it with \<open>data\<close>
  otherwise. The store is a parameter: with the store in state \<open>s\<close>,
  \<open>sdk client op params s\<close> is the pair \<open>(error, data)\<close> with which the primitive
  \<open>op\<close> of \<open>client\<close> completes the request \<open>params\<close>, and the state the request
  leaves the store in.
\<close>

datatype settled = Resolved jsval | Rejected jsval

type_synonym 's sdk = "DocumentClient \<Rightarrow> storeOp \<Rightarrow> jsobj \<Rightarrow> 's \<Rightarrow> (jsval \<times> jsval) \<times> 's"

definition callback :: "jsval \<Rightarrow> jsval \<Rightarrow> settled" where
  "callback error data = (if truthy error then Rejected error else Resolved data)"

definition dispatch :: "'s sdk \<Rightarrow> DynamoRecord \<Rightarrow> storeOp \<times> jsobj \<Rightarrow> 's \<Rightarrow> settled \<times> 's" where
  "dispatch store this request s =
     (let (op, params) = request;
          ((error, data), s') = store (dynamoClient this) op params s
      in (callback error data, s'))"

definition find_op :: "'s sdk \<Rightarrow> DynamoRecord \<Rightarrow> jsval \<Rightarrow> jsval \<Rightarrow> 's \<Rightarrow> settled \<times> 's" where
  "find_op store this primaryKey config = dispatch store this (find_request this primaryKey config)"

definition where_op ::
  "'s sdk \<Rightarrow> DynamoRecord \<Rightarrow> jsval \<Rightarrow> jsval \<Rightarrow> jsval \<Rightarrow> 's \<Rightarrow> settled \<times> 's" where
  "where_op store this primaryKey filterExpression config =
     dispatch store this (where_request this primaryKey filterExpression config)"

definition getAll :: "'s sdk \<Rightarrow> DynamoRecord \<Rightarrow> jsval \<Rightarrow> 's \<Rightarrow> settled \<times> 's" where
  "getAll store this config = dispatch store this (getAll_request this config)"

definition create :: "'s sdk \<Rightarrow> DynamoRecord \<Rightarrow> jsval \<Rightarrow> jsval \<Rightarrow> 's \<Rightarrow> settled \<times> 's" where
  "create store this createData config = dispatch store this (create_request this createData config)"

definition batchCreate ::
  "'s sdk \<Rightarrow> DynamoRecord \<Rightarrow> jsval list \<Rightarrow> jsval \<Rightarrow> 's \<Rightarrow> settled \<times> 's" where
  "batchCreate store this createData config =
     dispatch store this (batchCreate_request this createData config)"

definition update_op ::
  "'s sdk \<Rightarrow> DynamoRecord \<Rightarrow> jsval \<Rightarrow> jsval \<Rightarrow> jsval \<Rightarrow> 's \<Rightarrow> settled \<times> 's" where
  "update_op store this primaryKey updateData config =
     dispatch store this (update_request this primaryKey updateData config)"

definition destroy :: "'s sdk \<Rightarrow> DynamoRecord \<Rightarrow> jsval \<Rightarrow> jsval \<Rightarrow> 's \<Rightarrow> settled \<times> 's" where
  "destroy store this primaryKey config = dispatch store this (destroy_request this primaryKey config)"

section \<open>The builders as the specification describes them\<close>

text \<open>
  The specification (section 4.1) describes the expression builder by what each entry
  \<open>(name, value)\<close> of a key specification contributes. These definitions follow its
  words; the theorems below compare them with the requests the code builds.
\<close>

text \<open>
  "if value is a 2-element ordered sequence: emit clause \<open>#name BETWEEN :nameStart AND
  :nameEnd\<close> ...; else: emit clause \<open>#name = :name\<close>".
\<close>

definition keyClause :: "string \<Rightarrow> jsval \<Rightarrow> string" where
  "keyClause name value =
     (if isBetween value
      then ''#'' @ name @ '' BETWEEN :'' @ name @ ''Start AND :'' @ name @ ''End''
      else ''#'' @ name @ '' = :'' @ name)"

text \<open>"bind name-placeholder \<open>#name \<rightarrow> name\<close>".\<close>

definition nameBinding :: "string \<Rightarrow> string \<times> jsval" where
  "nameBinding name = (''#'' @ name, Str name)"

text \<open>
  "bind value-placeholders \<open>:nameStart \<rightarrow> value[0]\<close>, \<open>:nameEnd \<rightarrow> value[1]\<close>" for a
  2-element sequence, else "\<open>:name \<rightarrow> value\<close>".
\<close>

definition valueBindings :: "string \<Rightarrow> jsval \<Rightarrow> (string \<times> jsval) list" where
  "valueBindings name value =
     (if isBetween value
      then [('':'' @ name @ ''Start'', elementAt value 0), ('':'' @ name @ ''End'', elementAt value 1)]
      else [('':'' @ name, value)])"

text \<open>
  "For each entry (name, value): emit assignment \<open>#name = :name\<close>" (the update
  expression; no range form).
\<close>

definition assignment :: "string \<Rightarrow> string" where
  "assignment name = ''#'' @ name @ '' = :'' @ name"

text \<open>
  "For each (key, value) in overrideConfig, capitalize the key's first character and
  set/overwrite that field": the writes an override configuration asks for, in order.
\<close>

definition overrideWrites :: "jsobj \<Rightarrow> (string \<times> jsval) list" where
  "overrideWrites config = map (\<lambda>(k, v). (upperFirst k, v)) config"

text \<open>
  "if the accumulated name-placeholder mapping is empty, remove it from params; same
  for the value-placeholder mapping".
\<close>

definition pruneEmptyPlaceholders :: "jsobj \<Rightarrow> jsobj" where
  "pruneEmptyPlaceholders params =
     (let params = (if getProp params ''ExpressionAttributeNames'' = Obj []
                    then deleteProp params ''ExpressionAttributeNames'' else params)
      in if getProp params ''ExpressionAttributeValues'' = Obj []
         then deleteProp params ''ExpressionAttributeValues'' else params)"

text \<open>\<open>mergeOverrides\<close> is the specification's name for \<open>assignConfig\<close>.\<close>

definition mergeOverrides :: "jsobj \<Rightarrow> jsval \<Rightarrow> jsobj" where
  "mergeOverrides generatedParams overrideConfig = assignConfig generatedParams overrideConfig"

text \<open>The parameters \<open>where\<close> has generated when it reaches line 127.\<close>

definition where_generated :: "DynamoRecord \<Rightarrow> jsval \<Rightarrow> jsval \<Rightarrow> jsobj" where
  "where_generated this primaryKey filterExpression =
     where_filter (where_key (where_initial this) primaryKey) filterExpression"

text \<open>A sequence of property writes \<open>obj[k] = v\<close>, first to last.\<close>

definition writeAll :: "(string \<times> jsval) list \<Rightarrow> jsobj \<Rightarrow> jsobj" where
  "writeAll ws obj = fold (\<lambda>(k, v) obj. setProp obj k v) ws obj"

text \<open>The writes one visited entry makes to the name and value placeholder objects.\<close>

definition nameWrite :: "jsval \<times> key \<Rightarrow> string \<times> jsval" where
  "nameWrite entry = (''#'' @ keyString (snd entry), keyValue (snd entry))"

definition valueWrites :: "jsval \<times> key \<Rightarrow> (string \<times> jsval) list" where
  "valueWrites entry = valueBindings (keyString (snd entry)) (fst entry)"

definition updateWrite :: "jsval \<times> key \<Rightarrow> string \<times> jsval" where
  "updateWrite entry = ('':'' @ keyString (snd entry), fst entry)"

text \<open>
  The entries the loop of lines 110-124 visits: those of \<open>filterExpression.keys\<close>
  when the guard of lines 103-107 holds, none otherwise.
\<close>

definition filterEntries :: "jsval \<Rightarrow> (jsval \<times> key) list" where
  "filterEntries filterExpression =
     (if truthy filterExpression \<and> truthy (getMember filterExpression ''condition'')
           \<and> truthy (getMember filterExpression ''keys'')
      then forEachEntries (getMember filterExpression ''keys'')
      else [])"

text \<open>The writes \<open>assignConfig\<close> makes for a configuration, in order.\<close>

definition configWrites :: "jsval \<Rightarrow> (string \<times> jsval) list" where
  "configWrites config =
     map (\<lambda>(value, key). (upperFirst (keyString key), value)) (forEachEntries config)"

text \<open>The value bindings a key specification asks for, entry by entry, in order.\<close>

definition keyValueBindings :: "jsobj \<Rightarrow> (string \<times> jsval) list" where
  "keyValueBindings keySpec = concat (map (\<lambda>(name, value). valueBindings name value) keySpec)"

text \<open>
  A name that an assignment creates as a new last property: neither \<open>__proto__\<close> nor
  an array index.
\<close>

definition plainName :: "string \<Rightarrow> bool" where
  "plainName k = (k \<noteq> ''__proto__'' \<and> \<not> isIndex k)"

section \<open>Objects: reading after writing\<close>

lemma hasProp_iff: "hasProp obj k \<longleftrightarrow> k \<in> fst ` set obj"
  by (simp add: hasProp_def map_of_eq_None_iff)

lemma keys_replaceProp: "map fst (replaceProp obj k v) = map fst obj"
  by (induction obj) auto

lemma map_of_replaceProp:
  "k \<in> fst ` set obj \<Longrightarrow> map_of (replaceProp obj k v) = (map_of obj)(k \<mapsto> v)"
proof (induction obj)
  case Nil
  then show ?case by simp
next
  case (Cons p obj)
  obtain k' v' where p: "p = (k', v')" by (cases p)
  show ?case
  proof (cases "k' = k")
    case True
    then show ?thesis by (simp add: p fun_eq_iff)
  next
    case False
    then have "k \<in> fst ` set obj" using Cons.prems by (auto simp: p)
    then show ?thesis using False Cons.IH by (simp add: p fun_eq_iff)
  qed
qed

lemma map_of_append_fresh:
  "k \<notin> fst ` set obj \<Longrightarrow> map_of (obj @ [(k, v)]) = (map_of obj)(k \<mapsto> v)"
  by (induction obj) (auto simp: fun_eq_iff)

lemma set_insertIndex: "set (insertIndex obj k v) = insert (k, v) (set obj)"
  by (induction obj) (auto split: if_splits)

lemma map_of_insertIndex:
  "k \<notin> fst ` set obj \<Longrightarrow> map_of (insertIndex obj k v) = (map_of obj)(k \<mapsto> v)"
  by (induction obj) (auto simp: fun_eq_iff)

lemma distinct_insertIndex:
  "distinct (map fst obj) \<Longrightarrow> k \<notin> fst ` set obj \<Longrightarrow> distinct (map fst (insertIndex obj k v))"
  by (induction obj) (auto simp: set_insertIndex)

lemma map_of_setProp:
  assumes "k \<noteq> ''__proto__''"
  shows "map_of (setProp obj k v) = (map_of obj)(k \<mapsto> v)"
proof (cases "k \<in> fst ` set obj")
  case True
  then show ?thesis by (simp add: setProp_def hasProp_iff map_of_replaceProp)
next
  case False
  then show ?thesis
    using assms
    by (simp add: setProp_def hasProp_iff map_of_insertIndex map_of_append_fresh del: map_of_append)
qed

lemma map_of_setProp_own:
  "k \<in> fst ` set obj \<Longrightarrow> map_of (setProp obj k v) = (map_of obj)(k \<mapsto> v)"
  by (simp add: setProp_def hasProp_iff map_of_replaceProp)

lemma map_of_setProp_other: "f \<noteq> k \<Longrightarrow> map_of (setProp obj k v) f = map_of obj f"
proof (cases "k \<in> fst ` set obj")
  case True
  assume "f \<noteq> k"
  then show ?thesis using True by (simp add: setProp_def hasProp_iff map_of_replaceProp)
next
  case False
  assume "f \<noteq> k"
  then show ?thesis
    using False
    by (simp add: setProp_def hasProp_iff map_of_insertIndex map_of_append_fresh del: map_of_append)
qed

lemma keys_setProp_own: "k \<in> fst ` set obj \<Longrightarrow> map fst (setProp obj k v) = map fst obj"
  by (simp add: setProp_def hasProp_iff keys_replaceProp)

lemma keyset_setProp_subset: "fst ` set (setProp obj k v) \<subseteq> insert k (fst ` set obj)"
proof -
  have "fst ` set (replaceProp obj k v) = fst ` set obj"
    using keys_replaceProp [of obj k v] by (metis set_map)
  then show ?thesis
    by (auto simp: setProp_def set_insertIndex)
qed

lemma keyset_setProp:
  assumes "k \<noteq> ''__proto__''"
  shows "fst ` set (setProp obj k v) = insert k (fst ` set obj)"
proof -
  have "dom (map_of (setProp obj k v)) = insert k (dom (map_of obj))"
    by (simp add: map_of_setProp [OF assms])
  then show ?thesis by (simp add: dom_map_of_conv_image_fst)
qed

lemma setProp_fresh:
  "k \<notin> fst ` set obj \<Longrightarrow> k \<noteq> ''__proto__'' \<Longrightarrow> \<not> isIndex k \<Longrightarrow> setProp obj k v = obj @ [(k, v)]"
  by (simp add: setProp_def hasProp_iff)

lemma distinct_setProp: "distinct (map fst obj) \<Longrightarrow> distinct (map fst (setProp obj k v))"
  by (auto simp: setProp_def hasProp_iff keys_replaceProp distinct_insertIndex)

lemma getProp_setProp:
  "k \<noteq> ''__proto__'' \<Longrightarrow> getProp (setProp obj k v) k' = (if k' = k then v else getProp obj k')"
  by (simp add: getProp_def map_of_setProp)

lemma map_of_deleteProp: "map_of (deleteProp obj k) = (map_of obj)(k := None)"
  by (induction obj) (auto simp: deleteProp_def fun_eq_iff)

lemma own_if_read: "getProp p f = Obj m \<Longrightarrow> f \<in> fst ` set p"
  by (force simp: getProp_def split: option.splits dest: map_of_SomeD)

lemma map_of_setNested_other:
  "g \<noteq> f \<Longrightarrow> map_of (setNested p f k v) g = map_of p g"
  by (simp add: setNested_def map_of_setProp_other split: jsval.splits)

lemma map_of_setNested_same:
  assumes "map_of p f = Some (Obj m)"
  shows "map_of (setNested p f k v) f = Some (Obj (setProp m k v))"
proof -
  have "getProp p f = Obj m" using assms by (simp add: getProp_def)
  moreover have "f \<in> fst ` set p" using assms by (force dest: map_of_SomeD)
  ultimately show ?thesis by (simp add: setNested_def map_of_setProp_own)
qed

lemma keys_setNested: "map fst (setNested p f k v) = map fst p"
proof (cases "getProp p f")
  case (Obj m)
  then show ?thesis by (simp add: setNested_def keys_setProp_own [OF own_if_read [OF Obj]])
qed (simp_all add: setNested_def)

section \<open>What \<open>forEach\<close> visits\<close>

lemma forEachEntries_falsy: "\<not> truthy c \<Longrightarrow> forEachEntries c = []"
  by (cases c) (auto simp: forEachEntries_def)

lemma assignConfig_falsy: "\<not> truthy c \<Longrightarrow> assignConfig p c = p"
  by (simp add: assignConfig_def forEachEntries_falsy)

lemma forEachEntries_Obj:
  "\<not> isArrayLike (Obj kvs) \<Longrightarrow> forEachEntries (Obj kvs) = map (\<lambda>(k, v). (v, Name k)) kvs"
  by (simp add: forEachEntries_def)

section \<open>Sequences of writes\<close>

lemma writeAll_Nil: "writeAll [] obj = obj"
  by (simp add: writeAll_def)

lemma writeAll_Cons: "writeAll ((k, v) # ws) obj = writeAll ws (setProp obj k v)"
  by (simp add: writeAll_def)

lemma writeAll_append: "writeAll (ws @ ws') obj = writeAll ws' (writeAll ws obj)"
  by (simp add: writeAll_def)

lemma prefixed_plainName: "c \<noteq> CHR ''_'' \<Longrightarrow> \<not> isDigit c \<Longrightarrow> plainName (c # k)"
  by (simp add: plainName_def isIndex_def)

lemma hash_plainName: "plainName (CHR ''#'' # k)"
  by (simp add: prefixed_plainName isDigit_def)

lemma colon_plainName: "plainName (CHR '':'' # k)"
  by (simp add: prefixed_plainName isDigit_def)

text \<open>Apart from \<open>__proto__\<close>, a field holds what was written to it last.\<close>

lemma map_of_writeAll_field:
  "f \<noteq> ''__proto__'' \<Longrightarrow> map_of (writeAll ws obj) f = (map_of obj ++ map_of (rev ws)) f"
proof (induction ws arbitrary: obj)
  case Nil
  then show ?case by (simp add: writeAll_Nil)
next
  case (Cons w ws)
  obtain k v where w: "w = (k, v)" by (cases w)
  have "map_of (writeAll (w # ws) obj) f = (map_of (setProp obj k v) ++ map_of (rev ws)) f"
    using Cons.IH [OF Cons.prems] by (simp add: w writeAll_Cons)
  also have "\<dots> = (map_of obj ++ map_of (rev (w # ws))) f"
  proof (cases "k = f")
    case True
    then have "k \<noteq> ''__proto__''" using Cons.prems by simp
    then show ?thesis
      by (simp add: map_of_setProp w map_add_def True split: option.splits)
  next
    case False
    then have "map_of (setProp obj k v) f = map_of obj f"
      by (simp add: map_of_setProp_other)
    then show ?thesis using False
      by (simp add: w map_add_def split: option.splits)
  qed
  finally show ?case .
qed

lemma map_of_writeAll:
  assumes "\<forall>w \<in> set ws. fst w \<noteq> ''__proto__''"
  shows "map_of (writeAll ws obj) = map_of obj ++ map_of (rev ws)"
proof
  fix f
  show "map_of (writeAll ws obj) f = (map_of obj ++ map_of (rev ws)) f"
  proof (cases "f = ''__proto__''")
    case False
    then show ?thesis by (rule map_of_writeAll_field)
  next
    case True
    have "map_of (writeAll ws obj) ''__proto__'' = map_of obj ''__proto__''"
      using assms
    proof (induction ws arbitrary: obj)
      case Nil
      then show ?case by (simp add: writeAll_Nil)
    next
      case (Cons w ws)
      obtain k v where w: "w = (k, v)" by (cases w)
      have k: "k \<noteq> ''__proto__''" using Cons.prems by (simp add: w)
      have "map_of (writeAll ws (setProp obj k v)) ''__proto__'' = map_of (setProp obj k v) ''__proto__''"
        using Cons.prems by (intro Cons.IH) simp
      then show ?case using k by (simp add: w writeAll_Cons map_of_setProp_other)
    qed
    moreover have "map_of (rev ws) ''__proto__'' = None"
      using assms by (force simp: map_of_eq_None_iff)
    ultimately show ?thesis by (simp add: True map_add_def)
  qed
qed

lemma distinct_writeAll: "distinct (map fst obj) \<Longrightarrow> distinct (map fst (writeAll ws obj))"
proof (induction ws arbitrary: obj)
  case Nil
  then show ?case by (simp add: writeAll_Nil)
next
  case (Cons w ws)
  then show ?case by (cases w) (simp add: writeAll_Cons distinct_setProp)
qed

lemma keyset_writeAll_subset: "fst ` set (writeAll ws obj) \<subseteq> fst ` set obj \<union> fst ` set ws"
proof (induction ws arbitrary: obj)
  case Nil
  then show ?case by (simp add: writeAll_Nil)
next
  case (Cons w ws)
  obtain k v where w: "w = (k, v)" by (cases w)
  have "fst ` set (writeAll ws (setProp obj k v)) \<subseteq> fst ` set (setProp obj k v) \<union> fst ` set ws"
    by (rule Cons.IH)
  then show ?case
    using keyset_setProp_subset [of obj k v] by (auto simp: w writeAll_Cons)
qed

lemma keyset_writeAll:
  assumes "\<forall>w \<in> set ws. fst w \<noteq> ''__proto__''"
  shows "fst ` set (writeAll ws obj) = fst ` set obj \<union> fst ` set ws"
proof -
  have "dom (map_of (writeAll ws obj)) = dom (map_of obj) \<union> dom (map_of (rev ws))"
    by (simp add: map_of_writeAll [OF assms] Un_commute)
  then show ?thesis by (simp add: dom_map_of_conv_image_fst)
qed

lemma writeAll_fresh:
  assumes "distinct (map fst ws)" and "fst ` set ws \<inter> fst ` set obj = {}"
    and "\<forall>w \<in> set ws. plainName (fst w)"
  shows "writeAll ws obj = obj @ ws"
  using assms
proof (induction ws arbitrary: obj)
  case Nil
  then show ?case by (simp add: writeAll_Nil)
next
  case (Cons w ws)
  obtain k v where w: "w = (k, v)" by (cases w)
  have fresh: "k \<notin> fst ` set obj" using Cons.prems(2) by (auto simp: w)
  have plain: "k \<noteq> ''__proto__''" "\<not> isIndex k"
    using Cons.prems(3) by (simp_all add: w plainName_def)
  have "writeAll ws (obj @ [(k, v)]) = (obj @ [(k, v)]) @ ws"
    using Cons.prems by (intro Cons.IH) (auto simp: w)
  then show ?case by (simp add: writeAll_Cons setProp_fresh [OF fresh plain] w)
qed

section \<open>The loop over the primary key\<close>

lemma isBetween_Arr: "isBetween value \<Longrightarrow> \<exists>a b. value = Arr [a, b]"
proof (cases "value")
  case (Arr vs)
  assume "isBetween value"
  then have "length vs = 2" by (simp add: isBetween_def Arr)
  then obtain a b where "vs = [a, b]"
    by (cases vs; cases "tl vs") auto
  then show ?thesis by (simp add: Arr)
qed (simp_all add: isBetween_def)

lemma bindRange_between:
  assumes "isBetween value"
  shows "bindRange p ks value =
     setNested (setNested p ''ExpressionAttributeValues'' ('':'' @ ks @ ''Start'') (elementAt value 0))
       ''ExpressionAttributeValues'' ('':'' @ ks @ ''End'') (elementAt value 1)"
proof -
  obtain a b where "value = Arr [a, b]" using isBetween_Arr [OF assms] by blast
  then show ?thesis by (simp add: bindRange_def upt_rec)
qed

lemma setNested_twice_map_of:
  assumes "map_of p f = Some (Obj m)"
  shows "map_of (setNested (setNested p f k v) f k' v') = (map_of p)(f \<mapsto> Obj (writeAll [(k, v), (k', v')] m))"
proof -
  have 1: "map_of (setNested p f k v) f = Some (Obj (setProp m k v))"
    by (rule map_of_setNested_same [OF assms])
  show ?thesis
    by (rule ext)
       (simp add: map_of_setNested_same [OF 1] map_of_setNested_other writeAll_Cons writeAll_Nil)
qed

lemma setNested_map_of:
  assumes "map_of p f = Some (Obj m)"
  shows "map_of (setNested p f k v) = (map_of p)(f \<mapsto> Obj (setProp m k v))"
  by (rule ext) (simp add: map_of_setNested_same [OF assms] map_of_setNested_other)

lemma keys_bindRange: "map fst (bindRange p ks value) = map fst p"
proof (cases "value")
  case (Arr vs)
  have "map fst (fold (\<lambda>(v, k) p.
                  if k = (0::nat) then setNested p ''ExpressionAttributeValues'' ('':'' @ ks @ ''Start'') v
                  else if k = 1 then setNested p ''ExpressionAttributeValues'' ('':'' @ ks @ ''End'') v
                  else p) zs p) = map fst p" for zs
    by (induction zs arbitrary: p) (auto simp: keys_setNested)
  then show ?thesis by (simp add: bindRange_def Arr)
qed (simp_all add: bindRange_def)

text \<open>One call of the iteratee of lines 81-97.\<close>

lemma whereKeyIteratee_step:
  assumes n: "map_of p ''ExpressionAttributeNames'' = Some (Obj n)"
    and m: "map_of p ''ExpressionAttributeValues'' = Some (Obj m)"
  shows "\<exists>p'. whereKeyIteratee e (p, arr) = (p', arr @ [keyClause (keyString (snd e)) (fst e)])
      \<and> map fst p' = map fst p
      \<and> map_of p' = (map_of p)(''ExpressionAttributeNames'' \<mapsto> Obj (writeAll [nameWrite e] n),
                                ''ExpressionAttributeValues'' \<mapsto> Obj (writeAll (valueWrites e) m))"
proof -
  obtain "value" key where e: "e = (value, key)" by (cases e)
  define q where "q = setNested p ''ExpressionAttributeNames'' (''#'' @ keyString key) (keyValue key)"
  have q: "map_of q = (map_of p)(''ExpressionAttributeNames'' \<mapsto> Obj (writeAll [nameWrite e] n))"
    by (simp add: q_def setNested_map_of [OF n] nameWrite_def e writeAll_Cons writeAll_Nil)
  have qm: "map_of q ''ExpressionAttributeValues'' = Some (Obj m)"
    by (simp add: q m)
  have qk: "map fst q = map fst p" by (simp add: q_def keys_setNested)
  show ?thesis
  proof (cases "isBetween value")
    case True
    have "whereKeyIteratee e (p, arr) = (bindRange q (keyString key) value, arr @ [keyClause (keyString key) value])"
      by (simp add: whereKeyIteratee_def e q_def True keyClause_def Let_def)
    moreover have "map fst (bindRange q (keyString key) value) = map fst p"
      by (simp add: keys_bindRange qk)
    moreover have "map_of (bindRange q (keyString key) value) =
        (map_of p)(''ExpressionAttributeNames'' \<mapsto> Obj (writeAll [nameWrite e] n),
                   ''ExpressionAttributeValues'' \<mapsto> Obj (writeAll (valueWrites e) m))"
      by (simp add: bindRange_between [OF True] setNested_twice_map_of [OF qm] q valueWrites_def
            valueBindings_def True e)
    ultimately show ?thesis by (simp add: e)
  next
    case False
    have "whereKeyIteratee e (p, arr) =
        (setNested q ''ExpressionAttributeValues'' ('':'' @ keyString key) value,
         arr @ [keyClause (keyString key) value])"
      by (simp add: whereKeyIteratee_def e q_def False keyClause_def Let_def)
    moreover have "map_of (setNested q ''ExpressionAttributeValues'' ('':'' @ keyString key) value) =
        (map_of p)(''ExpressionAttributeNames'' \<mapsto> Obj (writeAll [nameWrite e] n),
                   ''ExpressionAttributeValues'' \<mapsto> Obj (writeAll (valueWrites e) m))"
      by (simp add: setNested_map_of [OF qm] q valueWrites_def valueBindings_def False e
            writeAll_Cons writeAll_Nil)
    ultimately show ?thesis by (simp add: e keys_setNested qk)
  qed
qed

text \<open>The loop of lines 81-97.\<close>

lemma fold_whereKeyIteratee:
  assumes "map_of p ''ExpressionAttributeNames'' = Some (Obj n)"
    and "map_of p ''ExpressionAttributeValues'' = Some (Obj m)"
  shows "\<exists>p'. fold whereKeyIteratee es (p, arr) =
                 (p', arr @ map (\<lambda>e. keyClause (keyString (snd e)) (fst e)) es)
      \<and> map fst p' = map fst p
      \<and> map_of p' = (map_of p)(''ExpressionAttributeNames'' \<mapsto> Obj (writeAll (map nameWrite es) n),
                                ''ExpressionAttributeValues'' \<mapsto> Obj (writeAll (concat (map valueWrites es)) m))"
  using assms
proof (induction es arbitrary: p n m arr)
  case Nil
  then show ?case by (auto simp: writeAll_Nil fun_eq_iff)
next
  case (Cons e es)
  obtain p1 where p1: "whereKeyIteratee e (p, arr) = (p1, arr @ [keyClause (keyString (snd e)) (fst e)])"
    "map fst p1 = map fst p"
    "map_of p1 = (map_of p)(''ExpressionAttributeNames'' \<mapsto> Obj (writeAll [nameWrite e] n),
                            ''ExpressionAttributeValues'' \<mapsto> Obj (writeAll (valueWrites e) m))"
    using whereKeyIteratee_step [OF Cons.prems, of e arr] by blast
  have n1: "map_of p1 ''ExpressionAttributeNames'' = Some (Obj (writeAll [nameWrite e] n))"
    and m1: "map_of p1 ''ExpressionAttributeValues'' = Some (Obj (writeAll (valueWrites e) m))"
    by (simp_all add: p1(3))
  obtain p' where p': "fold whereKeyIteratee es (p1, arr @ [keyClause (keyString (snd e)) (fst e)]) =
                 (p', (arr @ [keyClause (keyString (snd e)) (fst e)]) @ map (\<lambda>e. keyClause (keyString (snd e)) (fst e)) es)"
    "map fst p' = map fst p1"
    "map_of p' = (map_of p1)(''ExpressionAttributeNames'' \<mapsto> Obj (writeAll (map nameWrite es) (writeAll [nameWrite e] n)),
                             ''ExpressionAttributeValues'' \<mapsto> Obj (writeAll (concat (map valueWrites es)) (writeAll (valueWrites e) m)))"
    using Cons.IH [OF n1 m1] by blast
  have "fold whereKeyIteratee (e # es) (p, arr) = (p', arr @ map (\<lambda>e. keyClause (keyString (snd e)) (fst e)) (e # es))"
    by (simp add: p1(1) p'(1))
  moreover have "map fst p' = map fst p" by (simp add: p'(2) p1(2))
  moreover have "map_of p' = (map_of p)(''ExpressionAttributeNames'' \<mapsto> Obj (writeAll (map nameWrite (e # es)) n),
                                ''ExpressionAttributeValues'' \<mapsto> Obj (writeAll (concat (map valueWrites (e # es))) m))"
    by (simp add: p'(3) p1(3) writeAll_append [symmetric] del: append.simps)
       (simp add: writeAll_append)
  ultimately show ?case by blast
qed

section \<open>The loops over the filter keys and the update data\<close>

lemma fun_upd_twice2: "((f(a := x, b := y))(a := x', b := y')) = f(a := x', b := y')"
  by (rule ext) simp

text \<open>One call of the iteratee of lines 110-124.\<close>

lemma whereFilterIteratee_step:
  assumes n: "map_of p ''ExpressionAttributeNames'' = Some (Obj n)"
    and m: "map_of p ''ExpressionAttributeValues'' = Some (Obj m)"
  shows "map fst (whereFilterIteratee e p) = map fst p
      \<and> map_of (whereFilterIteratee e p) =
          (map_of p)(''ExpressionAttributeNames'' \<mapsto> Obj (writeAll [nameWrite e] n),
                     ''ExpressionAttributeValues'' \<mapsto> Obj (writeAll (valueWrites e) m))"
proof -
  obtain "value" key where e: "e = (value, key)" by (cases e)
  define q where "q = setNested p ''ExpressionAttributeNames'' (''#'' @ keyString key) (keyValue key)"
  have q: "map_of q = (map_of p)(''ExpressionAttributeNames'' \<mapsto> Obj (writeAll [nameWrite e] n))"
    by (simp add: q_def setNested_map_of [OF n] nameWrite_def e writeAll_Cons writeAll_Nil)
  have qm: "map_of q ''ExpressionAttributeValues'' = Some (Obj m)"
    by (simp add: q m)
  have qk: "map fst q = map fst p" by (simp add: q_def keys_setNested)
  show ?thesis
  proof (cases "isBetween value")
    case True
    have "whereFilterIteratee e p = bindRange q (keyString key) value"
      by (simp add: whereFilterIteratee_def e q_def True Let_def)
    moreover have "map fst (bindRange q (keyString key) value) = map fst p"
      by (simp add: keys_bindRange qk)
    moreover have "map_of (bindRange q (keyString key) value) =
        (map_of p)(''ExpressionAttributeNames'' \<mapsto> Obj (writeAll [nameWrite e] n),
                   ''ExpressionAttributeValues'' \<mapsto> Obj (writeAll (valueWrites e) m))"
      by (simp add: bindRange_between [OF True] setNested_twice_map_of [OF qm] q valueWrites_def
            valueBindings_def True e)
    ultimately show ?thesis by simp
  next
    case False
    have "whereFilterIteratee e p = setNested q ''ExpressionAttributeValues'' ('':'' @ keyString key) value"
      by (simp add: whereFilterIteratee_def e q_def False Let_def)
    moreover have "map_of (setNested q ''ExpressionAttributeValues'' ('':'' @ keyString key) value) =
        (map_of p)(''ExpressionAttributeNames'' \<mapsto> Obj (writeAll [nameWrite e] n),
                   ''ExpressionAttributeValues'' \<mapsto> Obj (writeAll (valueWrites e) m))"
      by (simp add: setNested_map_of [OF qm] q valueWrites_def valueBindings_def False e
            writeAll_Cons writeAll_Nil)
    ultimately show ?thesis by (simp add: keys_setNested qk)
  qed
qed

text \<open>The loop of lines 110-124.\<close>

lemma fold_whereFilterIteratee:
  assumes "map_of p ''ExpressionAttributeNames'' = Some (Obj n)"
    and "map_of p ''ExpressionAttributeValues'' = Some (Obj m)"
  shows "map fst (fold whereFilterIteratee es p) = map fst p
      \<and> map_of (fold whereFilterIteratee es p) =
          (map_of p)(''ExpressionAttributeNames'' \<mapsto> Obj (writeAll (map nameWrite es) n),
                     ''ExpressionAttributeValues'' \<mapsto> Obj (writeAll (concat (map valueWrites es)) m))"
  using assms
proof (induction es arbitrary: p n m)
  case Nil
  then show ?case by (auto simp: writeAll_Nil fun_eq_iff)
next
  case (Cons e es)
  define p1 where "p1 = whereFilterIteratee e p"
  have p1: "map fst p1 = map fst p"
    "map_of p1 = (map_of p)(''ExpressionAttributeNames'' \<mapsto> Obj (writeAll [nameWrite e] n),
                            ''ExpressionAttributeValues'' \<mapsto> Obj (writeAll (valueWrites e) m))"
    using whereFilterIteratee_step [OF Cons.prems, of e] by (simp_all add: p1_def)
  have n1: "map_of p1 ''ExpressionAttributeNames'' = Some (Obj (writeAll [nameWrite e] n))"
    and m1: "map_of p1 ''ExpressionAttributeValues'' = Some (Obj (writeAll (valueWrites e) m))"
    by (simp_all add: p1(2))
  have IH: "map fst (fold whereFilterIteratee es p1) = map fst p1"
    "map_of (fold whereFilterIteratee es p1) =
          (map_of p1)(''ExpressionAttributeNames'' \<mapsto> Obj (writeAll (map nameWrite es) (writeAll [nameWrite e] n)),
                     ''ExpressionAttributeValues'' \<mapsto> Obj (writeAll (concat (map valueWrites es)) (writeAll (valueWrites e) m)))"
    using Cons.IH [OF n1 m1] by blast+
  have w1: "writeAll (map nameWrite es) (writeAll [nameWrite e] n) = writeAll (map nameWrite (e # es)) n"
    by (simp add: writeAll_def)
  have w2: "writeAll (concat (map valueWrites es)) (writeAll (valueWrites e) m) =
      writeAll (concat (map valueWrites (e # es))) m"
    by (simp add: writeAll_def)
  have "map fst (fold whereFilterIteratee (e # es) p) = map fst p"
    by (simp add: p1_def [symmetric] p1(1) IH(1))
  moreover have "map_of (fold whereFilterIteratee (e # es) p) =
          (map_of p)(''ExpressionAttributeNames'' \<mapsto> Obj (writeAll (map nameWrite (e # es)) n),
                     ''ExpressionAttributeValues'' \<mapsto> Obj (writeAll (concat (map valueWrites (e # es))) m))"
    unfolding w1 [symmetric] w2 [symmetric]
    using IH(2) unfolding p1(2) fun_upd_twice2 by (simp add: p1_def)
  ultimately show ?case by blast
qed

text \<open>One call of the iteratee of lines 263-267.\<close>

lemma updateIteratee_step:
  assumes n: "map_of p ''ExpressionAttributeNames'' = Some (Obj n)"
    and m: "map_of p ''ExpressionAttributeValues'' = Some (Obj m)"
  shows "\<exists>p'. updateIteratee e (p, arr) = (p', arr @ [assignment (keyString (snd e))])
      \<and> map fst p' = map fst p
      \<and> map_of p' = (map_of p)(''ExpressionAttributeNames'' \<mapsto> Obj (writeAll [nameWrite e] n),
                                ''ExpressionAttributeValues'' \<mapsto> Obj (writeAll [updateWrite e] m))"
proof -
  obtain "value" key where e: "e = (value, key)" by (cases e)
  define q where "q = setNested p ''ExpressionAttributeNames'' (''#'' @ keyString key) (keyValue key)"
  have q: "map_of q = (map_of p)(''ExpressionAttributeNames'' \<mapsto> Obj (writeAll [nameWrite e] n))"
    by (simp add: q_def setNested_map_of [OF n] nameWrite_def e writeAll_Cons writeAll_Nil)
  have qm: "map_of q ''ExpressionAttributeValues'' = Some (Obj m)"
    by (simp add: q m)
  have qk: "map fst q = map fst p" by (simp add: q_def keys_setNested)
  have "updateIteratee e (p, arr) =
        (setNested q ''ExpressionAttributeValues'' ('':'' @ keyString key) value,
         arr @ [assignment (keyString key)])"
    by (simp add: updateIteratee_def e q_def assignment_def Let_def)
  moreover have "map_of (setNested q ''ExpressionAttributeValues'' ('':'' @ keyString key) value) =
        (map_of p)(''ExpressionAttributeNames'' \<mapsto> Obj (writeAll [nameWrite e] n),
                   ''ExpressionAttributeValues'' \<mapsto> Obj (writeAll [updateWrite e] m))"
    by (simp add: setNested_map_of [OF qm] q updateWrite_def e writeAll_Cons writeAll_Nil)
  ultimately show ?thesis by (simp add: e keys_setNested qk)
qed

text \<open>The loop of lines 263-267.\<close>

lemma fold_updateIteratee:
  assumes "map_of p ''ExpressionAttributeNames'' = Some (Obj n)"
    and "map_of p ''ExpressionAttributeValues'' = Some (Obj m)"
  shows "\<exists>p'. fold updateIteratee es (p, arr) = (p', arr @ map (\<lambda>e. assignment (keyString (snd e))) es)
      \<and> map fst p' = map fst p
      \<and> map_of p' = (map_of p)(''ExpressionAttributeNames'' \<mapsto> Obj (writeAll (map nameWrite es) n),
                                ''ExpressionAttributeValues'' \<mapsto> Obj (writeAll (map updateWrite es) m))"
  using assms
proof (induction es arbitrary: p n m arr)
  case Nil
  then show ?case by (auto simp: writeAll_Nil fun_eq_iff)
next
  case (Cons e es)
  obtain p1 where p1: "updateIteratee e (p, arr) = (p1, arr @ [assignment (keyString (snd e))])"
    "map fst p1 = map fst p"
    "map_of p1 = (map_of p)(''ExpressionAttributeNames'' \<mapsto> Obj (writeAll [nameWrite e] n),
                            ''ExpressionAttributeValues'' \<mapsto> Obj (writeAll [updateWrite e] m))"
    using updateIteratee_step [OF Cons.prems, of e arr] by blast
  have n1: "map_of p1 ''ExpressionAttributeNames'' = Some (Obj (writeAll [nameWrite e] n))"
    and m1: "map_of p1 ''ExpressionAttributeValues'' = Some (Obj (writeAll [updateWrite e] m))"
    by (simp_all add: p1(3))
  obtain p' where p': "fold updateIteratee es (p1, arr @ [assignment (keyString (snd e))]) =
                 (p', (arr @ [assignment (keyString (snd e))]) @ map (\<lambda>e. assignment (keyString (snd e))) es)"
    "map fst p' = map fst p1"
    "map_of p' = (map_of p1)(''ExpressionAttributeNames'' \<mapsto> Obj (writeAll (map nameWrite es) (writeAll [nameWrite e] n)),
                             ''ExpressionAttributeValues'' \<mapsto> Obj (writeAll (map updateWrite es) (writeAll [updateWrite e] m)))"
    using Cons.IH [OF n1 m1] by blast
  have "fold updateIteratee (e # es) (p, arr) = (p', arr @ map (\<lambda>e. assignment (keyString (snd e))) (e # es))"
    by (simp add: p1(1) p'(1))
  moreover have "map fst p' = map fst p" by (simp add: p'(2) p1(2))
  moreover have "map_of p' = (map_of p)(''ExpressionAttributeNames'' \<mapsto> Obj (writeAll (map nameWrite (e # es)) n),
                                ''ExpressionAttributeValues'' \<mapsto> Obj (writeAll (map updateWrite (e # es)) m))"
    by (simp add: p'(3) p1(3) writeAll_append [symmetric] del: append.simps)
       (simp add: writeAll_append)
  ultimately show ?case by blast
qed

section \<open>The parameters where generates\<close>

lemma where_key_map_of:
  assumes n: "map_of p ''ExpressionAttributeNames'' = Some (Obj n)"
    and m: "map_of p ''ExpressionAttributeValues'' = Some (Obj m)"
  shows "map_of (where_key p primaryKey) =
     (if truthy primaryKey
      then (map_of p)(''ExpressionAttributeNames'' \<mapsto> Obj (writeAll (map nameWrite (forEachEntries primaryKey)) n),
                      ''ExpressionAttributeValues'' \<mapsto> Obj (writeAll (concat (map valueWrites (forEachEntries primaryKey))) m),
                      ''KeyConditionExpression'' \<mapsto>
                         Str (join (map (\<lambda>e. keyClause (keyString (snd e)) (fst e)) (forEachEntries primaryKey)) '' AND ''))
      else map_of p)"
proof (cases "truthy primaryKey")
  case True
  obtain p' where p': "fold whereKeyIteratee (forEachEntries primaryKey) (p, []) =
                 (p', [] @ map (\<lambda>e. keyClause (keyString (snd e)) (fst e)) (forEachEntries primaryKey))"
      "map_of p' = (map_of p)(''ExpressionAttributeNames'' \<mapsto> Obj (writeAll (map nameWrite (forEachEntries primaryKey)) n),
                                ''ExpressionAttributeValues'' \<mapsto> Obj (writeAll (concat (map valueWrites (forEachEntries primaryKey))) m))"
    using fold_whereKeyIteratee [OF n m, of "forEachEntries primaryKey" "[]"] by blast
  show ?thesis
    by (simp add: where_key_def True p'(1) map_of_setProp p'(2))
next
  case False
  then show ?thesis by (simp add: where_key_def)
qed

lemma where_filter_map_of:
  assumes n: "map_of p ''ExpressionAttributeNames'' = Some (Obj n)"
    and m: "map_of p ''ExpressionAttributeValues'' = Some (Obj m)"
  shows "map_of (where_filter p fe) =
     (if truthy fe \<and> truthy (getMember fe ''condition'') \<and> truthy (getMember fe ''keys'')
      then (map_of p)(''FilterExpression'' \<mapsto> getMember fe ''condition'',
                      ''ExpressionAttributeNames'' \<mapsto> Obj (writeAll (map nameWrite (filterEntries fe)) n),
                      ''ExpressionAttributeValues'' \<mapsto> Obj (writeAll (concat (map valueWrites (filterEntries fe))) m))
      else map_of p)"
proof (cases "truthy fe \<and> truthy (getMember fe ''condition'') \<and> truthy (getMember fe ''keys'')")
  case True
  define q where "q = setProp p ''FilterExpression'' (getMember fe ''condition'')"
  have qn: "map_of q ''ExpressionAttributeNames'' = Some (Obj n)"
    and qm: "map_of q ''ExpressionAttributeValues'' = Some (Obj m)"
    by (simp_all add: q_def map_of_setProp n m)
  have "where_filter p fe = fold whereFilterIteratee (filterEntries fe) q"
    using True by (simp add: where_filter_def filterEntries_def q_def)
  then show ?thesis
    using fold_whereFilterIteratee [OF qn qm, of "filterEntries fe"] True
    by (simp add: q_def map_of_setProp)
next
  case False
  then show ?thesis by (auto simp: where_filter_def)
qed

lemma where_initial_map_of:
  "map_of (where_initial this) =
     [''TableName'' \<mapsto> Str (tableName this),
      ''ExpressionAttributeNames'' \<mapsto> Obj [],
      ''ExpressionAttributeValues'' \<mapsto> Obj [],
      ''ReturnConsumedCapacity'' \<mapsto> Str ''TOTAL'']"
  by (rule ext) (simp add: where_initial_def)

section \<open>Pruning the generated parameters\<close>

lemma where_key_initial_names:
  "map_of (where_key (where_initial this) pk) ''ExpressionAttributeNames'' =
     Some (Obj (writeAll (map nameWrite (forEachEntries pk)) []))"
proof -
  have n: "map_of (where_initial this) ''ExpressionAttributeNames'' = Some (Obj [])"
    and m: "map_of (where_initial this) ''ExpressionAttributeValues'' = Some (Obj [])"
    by (simp_all add: where_initial_def)
  show ?thesis
    by (cases "truthy pk")
       (simp_all add: where_key_map_of [OF n m] n forEachEntries_falsy writeAll_Nil)
qed

lemma where_key_initial_values:
  "map_of (where_key (where_initial this) pk) ''ExpressionAttributeValues'' =
     Some (Obj (writeAll (concat (map valueWrites (forEachEntries pk))) []))"
proof -
  have n: "map_of (where_initial this) ''ExpressionAttributeNames'' = Some (Obj [])"
    and m: "map_of (where_initial this) ''ExpressionAttributeValues'' = Some (Obj [])"
    by (simp_all add: where_initial_def)
  show ?thesis
    by (cases "truthy pk")
       (simp_all add: where_key_map_of [OF n m] m forEachEntries_falsy writeAll_Nil)
qed

lemma where_key_initial_other:
  assumes "f \<noteq> ''ExpressionAttributeNames''" "f \<noteq> ''ExpressionAttributeValues''"
  shows "map_of (where_key (where_initial this) pk) f =
     (if f = ''KeyConditionExpression'' \<and> truthy pk
      then Some (Str (join (map (\<lambda>e. keyClause (keyString (snd e)) (fst e)) (forEachEntries pk)) '' AND ''))
      else map_of (where_initial this) f)"
proof -
  have n: "map_of (where_initial this) ''ExpressionAttributeNames'' = Some (Obj [])"
    and m: "map_of (where_initial this) ''ExpressionAttributeValues'' = Some (Obj [])"
    by (simp_all add: where_initial_def)
  show ?thesis
    using assms by (simp add: where_key_map_of [OF n m])
qed

lemma where_generated_names:
  "map_of (where_generated this pk fe) ''ExpressionAttributeNames'' =
     Some (Obj (writeAll (map nameWrite (forEachEntries pk @ filterEntries fe)) []))"
proof -
  note n = where_key_initial_names [of this pk] and m = where_key_initial_values [of this pk]
  have "filterEntries fe = []"
    if "\<not> (truthy fe \<and> truthy (getMember fe ''condition'') \<and> truthy (getMember fe ''keys''))"
    using that by (auto simp: filterEntries_def)
  then show ?thesis
    by (auto simp: where_generated_def where_filter_map_of [OF n m] n writeAll_append writeAll_Nil)
qed

lemma where_generated_values:
  "map_of (where_generated this pk fe) ''ExpressionAttributeValues'' =
     Some (Obj (writeAll (concat (map valueWrites (forEachEntries pk @ filterEntries fe))) []))"
proof -
  note n = where_key_initial_names [of this pk] and m = where_key_initial_values [of this pk]
  have "filterEntries fe = []"
    if "\<not> (truthy fe \<and> truthy (getMember fe ''condition'') \<and> truthy (getMember fe ''keys''))"
    using that by (auto simp: filterEntries_def)
  then show ?thesis
    by (auto simp: where_generated_def where_filter_map_of [OF n m] m writeAll_append writeAll_Nil)
qed

lemma where_generated_other:
  assumes "f \<noteq> ''ExpressionAttributeNames''" "f \<noteq> ''ExpressionAttributeValues''"
  shows "map_of (where_generated this pk fe) f =
     (if f = ''FilterExpression'' \<and> truthy fe \<and> truthy (getMember fe ''condition'')
           \<and> truthy (getMember fe ''keys'')
      then Some (getMember fe ''condition'')
      else if f = ''KeyConditionExpression'' \<and> truthy pk
      then Some (Str (join (map (\<lambda>e. keyClause (keyString (snd e)) (fst e)) (forEachEntries pk)) '' AND ''))
      else map_of (where_initial this) f)"
proof -
  note n = where_key_initial_names [of this pk] and m = where_key_initial_values [of this pk]
  show ?thesis
    using assms
    by (simp add: where_generated_def where_filter_map_of [OF n m] where_key_initial_other)
qed

text \<open>Placeholder names start with \<open>#\<close> or \<open>:\<close>, so no placeholder object is array-like.\<close>

lemma nameWrite_key: "fst (nameWrite e) \<noteq> ''length''"
  by (simp add: nameWrite_def)

lemma valueWrites_key: "w \<in> set (valueWrites e) \<Longrightarrow> fst w \<noteq> ''length''"
  by (auto simp: valueWrites_def valueBindings_def split: if_splits)

lemma size_of_plain:
  assumes "''length'' \<notin> fst ` set obj"
  shows "size_of (Obj obj) = length obj"
proof -
  have "map_of obj ''length'' = None" using assms by (simp add: map_of_eq_None_iff)
  then show ?thesis by (simp add: size_of_def getProp_def)
qed

lemma size_of_names:
  "size_of (Obj (writeAll (map nameWrite es) [])) = length (writeAll (map nameWrite es) [])"
proof (rule size_of_plain)
  have "''length'' \<notin> fst ` set (map nameWrite es)"
    by (auto simp: nameWrite_def)
  then show "''length'' \<notin> fst ` set (writeAll (map nameWrite es) [])"
    using keyset_writeAll_subset [of "map nameWrite es" "[]"] by auto
qed

lemma size_of_empty: "size_of (Obj []) = 0"
  by (simp add: size_of_def getProp_def)

lemma size_of_values:
  "size_of (Obj (writeAll (concat (map valueWrites es)) [])) =
     length (writeAll (concat (map valueWrites es)) [])"
proof (rule size_of_plain)
  have "''length'' \<notin> fst ` set (concat (map valueWrites es))"
    by (auto dest: valueWrites_key)
  then show "''length'' \<notin> fst ` set (writeAll (concat (map valueWrites es)) [])"
    using keyset_writeAll_subset [of "concat (map valueWrites es)" "[]"] by auto
qed

text \<open>Lines 127-133 do what the specification calls \<open>pruneEmptyPlaceholders\<close>.\<close>

lemma where_prune_generated:
  "where_prune (where_generated this pk fe) = pruneEmptyPlaceholders (where_generated this pk fe)"
proof -
  define g where "g = where_generated this pk fe"
  define n where "n = writeAll (map nameWrite (forEachEntries pk @ filterEntries fe)) []"
  define m where "m = writeAll (concat (map valueWrites (forEachEntries pk @ filterEntries fe))) []"
  have gn: "getProp g ''ExpressionAttributeNames'' = Obj n"
    by (simp add: getProp_def g_def n_def where_generated_names)
  have gm: "getProp g ''ExpressionAttributeValues'' = Obj m"
    by (simp add: getProp_def g_def m_def where_generated_values)
  have gm': "getProp (deleteProp g ''ExpressionAttributeNames'') ''ExpressionAttributeValues'' = Obj m"
    using gm by (simp add: getProp_def map_of_deleteProp)
  have sn: "size_of (Obj n) = 0 \<longleftrightarrow> n = []"
    unfolding n_def size_of_names by simp
  have sm: "size_of (Obj m) = 0 \<longleftrightarrow> m = []"
    unfolding m_def size_of_values by simp
  have "where_prune g = pruneEmptyPlaceholders g"
    unfolding where_prune_def pruneEmptyPlaceholders_def Let_def gn
    by (cases "n = []"; cases "m = []") (simp_all add: gm gm' sn sm size_of_empty)
  then show ?thesis by (simp add: g_def)
qed

section \<open>Merging a configuration\<close>

lemma assignConfig_writeAll: "assignConfig params config = writeAll (configWrites config) params"
proof -
  have "fold (\<lambda>(value, key) p. setProp p (upperFirst (keyString key)) value) es p =
        writeAll (map (\<lambda>(value, key). (upperFirst (keyString key), value)) es) p" for es p
    by (induction es arbitrary: p) (auto simp: writeAll_Nil writeAll_Cons)
  then show ?thesis by (simp add: assignConfig_def configWrites_def)
qed

lemma map_of_assignConfig:
  "f \<noteq> ''__proto__'' \<Longrightarrow> map_of (assignConfig params config) f =
     (case map_of (rev (configWrites config)) f of None \<Rightarrow> map_of params f | Some v \<Rightarrow> Some v)"
  by (simp add: assignConfig_writeAll map_of_writeAll_field map_add_def)

lemma configWrites_falsy: "\<not> truthy config \<Longrightarrow> configWrites config = []"
  by (simp add: configWrites_def forEachEntries_falsy)

lemma configWrites_Obj:
  "\<not> isArrayLike (Obj cfg) \<Longrightarrow> configWrites (Obj cfg) = overrideWrites cfg"
  by (simp add: configWrites_def overrideWrites_def forEachEntries_Obj split_def)

lemma guarded_assignConfig:
  "(if truthy config then assignConfig params config else params) = assignConfig params config"
  by (simp add: assignConfig_falsy)

section \<open>The request of where, field by field\<close>

lemma where_request_params:
  "snd (where_request this primaryKey filterExpression config) =
     assignConfig (pruneEmptyPlaceholders (where_generated this primaryKey filterExpression)) config"
proof -
  have "where_prune (where_filter (where_key (where_initial this) primaryKey) filterExpression) =
      pruneEmptyPlaceholders (where_generated this primaryKey filterExpression)"
    using where_prune_generated [of this primaryKey filterExpression]
    by (simp add: where_generated_def)
  then show ?thesis
    by (simp add: where_request_def Let_def guarded_assignConfig)
qed

lemma where_request_op:
  "fst (where_request this primaryKey filterExpression config) =
     (if truthy primaryKey then Query else Scan)"
  by (simp add: where_request_def Let_def)

lemma map_of_prune_other:
  assumes "f \<noteq> ''ExpressionAttributeNames''" "f \<noteq> ''ExpressionAttributeValues''"
  shows "map_of (pruneEmptyPlaceholders p) f = map_of p f"
  using assms by (simp add: pruneEmptyPlaceholders_def Let_def map_of_deleteProp)

lemma where_request_field:
  assumes "f \<noteq> ''ExpressionAttributeNames''" "f \<noteq> ''ExpressionAttributeValues''"
    and "f \<noteq> ''__proto__''"
  shows "map_of (snd (where_request this pk fe cfg)) f =
     (case map_of (rev (configWrites cfg)) f of
        None \<Rightarrow> map_of (where_generated this pk fe) f
      | Some v \<Rightarrow> Some v)"
  by (simp add: where_request_params map_of_assignConfig [OF assms(3)]
        map_of_prune_other [OF assms(1,2)] cong: option.case_cong)

lemma find_request_field:
  "f \<noteq> ''__proto__'' \<Longrightarrow> map_of (snd (find_request this pk cfg)) f =
     (case map_of (rev (configWrites cfg)) f of
        None \<Rightarrow> map_of [(''TableName'', Str (tableName this)), (''Key'', pk),
                          (''ConsistentRead'', Bool True), (''ReturnConsumedCapacity'', Str ''TOTAL'')] f
      | Some v \<Rightarrow> Some v)"
  by (simp only: find_request_def Let_def guarded_assignConfig snd_conv)
     (rule map_of_assignConfig)

lemma getAll_request_field:
  "f \<noteq> ''__proto__'' \<Longrightarrow> map_of (snd (getAll_request this cfg)) f =
     (case map_of (rev (configWrites cfg)) f of
        None \<Rightarrow> map_of [(''TableName'', Str (tableName this)),
                          (''ReturnConsumedCapacity'', Str ''TOTAL'')] f
      | Some v \<Rightarrow> Some v)"
  by (simp only: getAll_request_def Let_def guarded_assignConfig snd_conv)
     (rule map_of_assignConfig)

lemma not_arrayLike_plain: "''length'' \<notin> fst ` set kvs \<Longrightarrow> \<not> isArrayLike (Obj kvs)"
proof -
  assume "''length'' \<notin> fst ` set kvs"
  then have "map_of kvs ''length'' = None" by (simp add: map_of_eq_None_iff)
  then show ?thesis by (simp add: getProp_def)
qed

lemma configWrites_single:
  "k \<noteq> ''length'' \<Longrightarrow> configWrites (Obj [(k, v)]) = [(upperFirst k, v)]"
proof -
  assume "k \<noteq> ''length''"
  then have "\<not> isArrayLike (Obj [(k, v)])" by (intro not_arrayLike_plain) simp
  then show ?thesis by (simp add: configWrites_Obj overrideWrites_def)
qed

section \<open>The request of update\<close>

lemma showNat_digit: "n < 10 \<Longrightarrow> showNat n = [digitChar n]"
  by (simp add: showNat.simps)

lemma update_request_length:
  "update_request this primaryKey (Obj [(''length'', Num 2)]) Undefined =
     (Update,
      [(''TableName'', Str (tableName this)),
       (''Key'', primaryKey),
       (''ExpressionAttributeNames'', Obj [(''#0'', Num 0), (''#1'', Num 1)]),
       (''ExpressionAttributeValues'', Obj [('':0'', Undefined), ('':1'', Undefined)]),
       (''ReturnValues'', Str ''ALL_NEW''),
       (''UpdateExpression'', Str ''set #0 = :0, #1 = :1'')])"
  by (simp add: update_request_def forEachEntries_def getProp_def upt_rec updateIteratee_def
        setNested_def showNat_digit digitChar_def Let_def setProp_def hasProp_def isIndex_def
        isDigit_def)

lemma update_request_bob:
  "update_request this (Obj [(''id'', Str ''1'')]) (Obj [(''name'', Str ''Bob'')]) Undefined =
     (Update,
      [(''TableName'', Str (tableName this)),
       (''Key'', Obj [(''id'', Str ''1'')]),
       (''ExpressionAttributeNames'', Obj [(''#name'', Str ''name'')]),
       (''ExpressionAttributeValues'', Obj [('':name'', Str ''Bob'')]),
       (''ReturnValues'', Str ''ALL_NEW''),
       (''UpdateExpression'', Str ''set #name = :name'')])"
  by (simp add: update_request_def forEachEntries_def getProp_def updateIteratee_def
        setNested_def Let_def setProp_def hasProp_def isIndex_def isDigit_def)

section \<open>Requests for plain objects\<close>

lemma update_request_map_of:
  assumes "truthy updateData"
  shows "map_of (snd (update_request this primaryKey updateData Undefined)) =
     [''TableName'' \<mapsto> Str (tableName this),
      ''Key'' \<mapsto> primaryKey,
      ''ReturnValues'' \<mapsto> Str ''ALL_NEW'',
      ''ExpressionAttributeNames'' \<mapsto> Obj (writeAll (map nameWrite (forEachEntries updateData)) []),
      ''ExpressionAttributeValues'' \<mapsto> Obj (writeAll (map updateWrite (forEachEntries updateData)) []),
      ''UpdateExpression'' \<mapsto>
         Str (''set '' @ join (map (\<lambda>e. assignment (keyString (snd e))) (forEachEntries updateData)) '', '')]"
proof -
  define p where "p = [(''TableName'', Str (tableName this)), (''Key'', primaryKey),
                    (''ExpressionAttributeNames'', Obj []),
                    (''ExpressionAttributeValues'', Obj []),
                    (''ReturnValues'', Str ''ALL_NEW'')]"
  have n: "map_of p ''ExpressionAttributeNames'' = Some (Obj [])"
    and m: "map_of p ''ExpressionAttributeValues'' = Some (Obj [])"
    by (simp_all add: p_def)
  obtain p' where p': "fold updateIteratee (forEachEntries updateData) (p, []) =
        (p', [] @ map (\<lambda>e. assignment (keyString (snd e))) (forEachEntries updateData))"
      "map_of p' = (map_of p)(''ExpressionAttributeNames'' \<mapsto> Obj (writeAll (map nameWrite (forEachEntries updateData)) []),
                              ''ExpressionAttributeValues'' \<mapsto> Obj (writeAll (map updateWrite (forEachEntries updateData)) []))"
    using fold_updateIteratee [OF n m, of "forEachEntries updateData" "[]"] by blast
  have "snd (update_request this primaryKey updateData Undefined) =
      setProp p' ''UpdateExpression''
        (Str (''set '' @ join (map (\<lambda>e. assignment (keyString (snd e))) (forEachEntries updateData)) '', ''))"
    using assms p'(1) by (simp add: update_request_def p_def [symmetric] Let_def)
  then show ?thesis
    by (simp add: map_of_setProp p'(2)) (rule ext, simp add: p_def)
qed

lemma nameWrites_plain:
  "map nameWrite (map (\<lambda>(k, v). (v, Name k)) kvs) = map (nameBinding \<circ> fst) kvs"
  by (induction kvs) (auto simp: nameWrite_def nameBinding_def)

lemma updateWrites_plain:
  "map updateWrite (map (\<lambda>(k, v). (v, Name k)) kvs) = map (\<lambda>(k, v). ('':'' @ k, v)) kvs"
  by (induction kvs) (auto simp: updateWrite_def)

lemma assignments_plain:
  "map (\<lambda>e. assignment (keyString (snd e))) (map (\<lambda>(k, v). (v, Name k)) kvs) =
     map (assignment \<circ> fst) kvs"
  by (induction kvs) auto

lemma clauses_plain:
  "map (\<lambda>e. keyClause (keyString (snd e)) (fst e)) (map (\<lambda>(k, v). (v, Name k)) kvs) =
     map (\<lambda>(k, v). keyClause k v) kvs"
  by (induction kvs) auto

lemma valueWrites_plain:
  "concat (map valueWrites (map (\<lambda>(k, v). (v, Name k)) kvs)) =
     concat (map (\<lambda>(k, v). valueBindings k v) kvs)"
  by (induction kvs) (auto simp: valueWrites_def)

lemma prefixed_keys_distinct:
  assumes "distinct (map fst kvs)" and "\<And>p. p \<in> set kvs \<Longrightarrow> fst (g p) = c # fst p"
  shows "distinct (map fst (map g kvs))"
proof -
  have "distinct (map ((#) c) (map fst kvs))"
    by (rule distinct_map [THEN iffD2]) (simp add: assms(1) inj_on_def)
  moreover have "map fst (map g kvs) = map ((#) c) (map fst kvs)"
    by (simp add: assms(2))
  ultimately show ?thesis by (simp only:)
qed

lemma names_plain:
  assumes "distinct (map fst kvs)"
  shows "writeAll (map (nameBinding \<circ> fst) kvs) [] = map (nameBinding \<circ> fst) kvs"
proof -
  have "distinct (map fst (map (nameBinding \<circ> fst) kvs))"
    by (rule prefixed_keys_distinct [OF assms, where c = "CHR ''#''"]) (simp add: nameBinding_def)
  moreover have "\<forall>w \<in> set (map (nameBinding \<circ> fst) kvs). plainName (fst w)"
    by (simp add: nameBinding_def hash_plainName)
  ultimately show ?thesis using writeAll_fresh [of "map (nameBinding \<circ> fst) kvs" "[]"] by simp
qed

lemma updateValues_plain:
  assumes "distinct (map fst kvs)"
  shows "writeAll (map (\<lambda>(k, v). ('':'' @ k, v)) kvs) [] = map (\<lambda>(k, v). ('':'' @ k, v)) kvs"
proof -
  have "distinct (map fst (map (\<lambda>(k, v). ('':'' @ k, v)) kvs))"
    by (rule prefixed_keys_distinct [OF assms, where c = "CHR '':''"]) (simp add: split_def)
  moreover have "\<forall>w \<in> set (map (\<lambda>(k, v). ('':'' @ k, v)) kvs). plainName (fst w)"
    by (simp add: colon_plainName split_def)
  ultimately show ?thesis using writeAll_fresh [of "map (\<lambda>(k, v). ('':'' @ k, v)) kvs" "[]"] by simp
qed

text \<open>
  \<open>update\<close> on an update specification that \<open>forEach\<close> visits entry by entry: one
  assignment, one name placeholder and one value placeholder per entry, in order.
\<close>

lemma update_request_plain:
  assumes "\<not> isArrayLike (Obj updateSpec)" and "distinct (map fst updateSpec)"
  shows "fst (update_request this keySpec (Obj updateSpec) Undefined) = Update
    \<and> map_of (snd (update_request this keySpec (Obj updateSpec) Undefined)) =
     [''TableName'' \<mapsto> Str (tableName this),
      ''Key'' \<mapsto> keySpec,
      ''ReturnValues'' \<mapsto> Str ''ALL_NEW'',
      ''ExpressionAttributeNames'' \<mapsto> Obj (map (nameBinding \<circ> fst) updateSpec),
      ''ExpressionAttributeValues'' \<mapsto> Obj (map (\<lambda>(k, v). ('':'' @ k, v)) updateSpec),
      ''UpdateExpression'' \<mapsto> Str (''set '' @ join (map (assignment \<circ> fst) updateSpec) '', '')]"
proof -
  have t: "truthy (Obj updateSpec)" by simp
  have "fst (update_request this keySpec (Obj updateSpec) Undefined) = Update"
    by (simp add: update_request_def Let_def split_def)
  then show ?thesis
    by (simp only: update_request_map_of [OF t] forEachEntries_Obj [OF assms(1)] nameWrites_plain
          updateWrites_plain assignments_plain names_plain [OF assms(2)]
          updateValues_plain [OF assms(2)] simp_thms)
qed

section \<open>Overrides of a plain configuration\<close>

lemma fold_heap_last:
  "fold (\<lambda>(value, key) h. h[length hp := setProp (h ! length hp) (upperFirst (keyString key)) value])
     es (hp @ [obj]) =
   hp @ [fold (\<lambda>(value, key) p. setProp p (upperFirst (keyString key)) value) es obj]"
  by (induction es arbitrary: obj) (auto simp: split_def)

text \<open>\<open>assignConfig\<close> on the store: the result is a new object, the argument is untouched.\<close>

lemma assignConfig_heap_result:
  "assignConfig_heap hp params config = (hp @ [assignConfig (hp ! params) config], length hp)"
  by (simp add: assignConfig_heap_def alloc_def assignConfig_def fold_heap_last)

lemma map_of_rev_distinct:
  assumes "distinct (map fst ws)" and "(k, v) \<in> set ws"
  shows "map_of (rev ws) k = Some v"
proof -
  have "distinct (map fst (rev ws))" using assms(1) by (simp add: rev_map [symmetric])
  moreover have "(k, v) \<in> set (rev ws)" using assms(2) by simp
  ultimately show ?thesis by (rule map_of_is_SomeI)
qed

lemma map_of_rev_None: "k \<notin> fst ` set ws \<Longrightarrow> map_of (rev ws) k = None"
  by (simp add: map_of_eq_None_iff)

lemma mergeOverrides_plain:
  assumes "\<not> isArrayLike (Obj cfg)" and "''__proto__'' \<notin> fst ` set (overrideWrites cfg)"
  shows "map_of (mergeOverrides params (Obj cfg)) f =
     (case map_of (rev (overrideWrites cfg)) f of None \<Rightarrow> map_of params f | Some v \<Rightarrow> Some v)"
proof -
  have "\<forall>w \<in> set (overrideWrites cfg). fst w \<noteq> ''__proto__''"
    using assms(2) by force
  then show ?thesis
    by (simp add: mergeOverrides_def assignConfig_writeAll configWrites_Obj [OF assms(1)]
          map_of_writeAll map_add_def)
qed

lemma mergeOverrides_entry:
  assumes "\<not> isArrayLike (Obj cfg)" and "''__proto__'' \<notin> fst ` set (overrideWrites cfg)"
    and "distinct (map fst (overrideWrites cfg))" and "(k, v) \<in> set cfg"
  shows "getProp (mergeOverrides params (Obj cfg)) (upperFirst k) = v"
proof -
  have "(upperFirst k, v) \<in> set (overrideWrites cfg)"
    using assms(4) by (force simp: overrideWrites_def)
  then have "map_of (rev (overrideWrites cfg)) (upperFirst k) = Some v"
    by (rule map_of_rev_distinct [OF assms(3)])
  then show ?thesis by (simp add: getProp_def mergeOverrides_plain [OF assms(1,2)])
qed

lemma mergeOverrides_untouched:
  assumes "\<not> isArrayLike (Obj cfg)" and "''__proto__'' \<notin> fst ` set (overrideWrites cfg)"
    and "f \<notin> fst ` set (overrideWrites cfg)"
  shows "map_of (mergeOverrides params (Obj cfg)) f = map_of params f"
  by (simp add: mergeOverrides_plain [OF assms(1,2)] map_of_rev_None [OF assms(3)])

section \<open>The placeholder objects of a request of where\<close>

lemma map_of_prune_names:
  "map_of (pruneEmptyPlaceholders p) ''ExpressionAttributeNames'' =
     (if getProp p ''ExpressionAttributeNames'' = Obj [] then None
      else map_of p ''ExpressionAttributeNames'')"
  by (simp add: pruneEmptyPlaceholders_def Let_def map_of_deleteProp)

lemma map_of_prune_values:
  "map_of (pruneEmptyPlaceholders p) ''ExpressionAttributeValues'' =
     (if getProp p ''ExpressionAttributeValues'' = Obj [] then None
      else map_of p ''ExpressionAttributeValues'')"
  by (simp add: pruneEmptyPlaceholders_def Let_def map_of_deleteProp getProp_def)

lemma writeAll_eq_Nil:
  assumes "\<forall>w \<in> set ws. fst w \<noteq> ''__proto__''"
  shows "writeAll ws [] = [] \<longleftrightarrow> ws = []"
proof
  assume "writeAll ws [] = []"
  then have "fst ` set (writeAll ws []) = {}" by simp
  then show "ws = []" by (simp add: keyset_writeAll [OF assms])
qed (simp add: writeAll_Nil)

lemma nameWrites_no_proto: "\<forall>w \<in> set (map nameWrite es). fst w \<noteq> ''__proto__''"
  by (simp add: nameWrite_def)

lemma valueWrites_no_proto: "\<forall>w \<in> set (concat (map valueWrites es)). fst w \<noteq> ''__proto__''"
  by (auto simp: valueWrites_def valueBindings_def split: if_splits)

lemma valueBindings_plain: "w \<in> set (valueBindings name value) \<Longrightarrow> plainName (fst w)"
  by (auto simp: valueBindings_def colon_plainName split: if_splits)

lemma keyValueBindings_plain: "\<forall>w \<in> set (keyValueBindings keySpec). plainName (fst w)"
  by (auto simp: keyValueBindings_def dest: valueBindings_plain)

text \<open>The placeholder objects of a request of \<open>where\<close> without overrides.\<close>

lemma where_request_names:
  "map_of (snd (where_request this pk fe Undefined)) ''ExpressionAttributeNames'' =
     (if forEachEntries pk @ filterEntries fe = [] then None
      else Some (Obj (writeAll (map nameWrite (forEachEntries pk @ filterEntries fe)) [])))"
proof -
  define es where "es = forEachEntries pk @ filterEntries fe"
  have r: "snd (where_request this pk fe Undefined) = pruneEmptyPlaceholders (where_generated this pk fe)"
    by (simp add: where_request_params assignConfig_falsy)
  have g: "map_of (where_generated this pk fe) ''ExpressionAttributeNames'' =
      Some (Obj (writeAll (map nameWrite es) []))"
    by (simp only: es_def where_generated_names)
  show ?thesis
    unfolding es_def [symmetric]
    by (simp add: r map_of_prune_names getProp_def g writeAll_eq_Nil [OF nameWrites_no_proto])
qed

lemma valueWrites_nonempty: "valueWrites e \<noteq> []"
  by (simp add: valueWrites_def valueBindings_def)

lemma concat_valueWrites_Nil: "concat (map valueWrites es) = [] \<longleftrightarrow> es = []"
  by (cases es) (simp_all add: valueWrites_nonempty)

lemma where_request_values:
  "map_of (snd (where_request this pk fe Undefined)) ''ExpressionAttributeValues'' =
     (if forEachEntries pk @ filterEntries fe = [] then None
      else Some (Obj (writeAll (concat (map valueWrites (forEachEntries pk @ filterEntries fe))) [])))"
proof -
  define es where "es = forEachEntries pk @ filterEntries fe"
  have r: "snd (where_request this pk fe Undefined) = pruneEmptyPlaceholders (where_generated this pk fe)"
    by (simp add: where_request_params assignConfig_falsy)
  have g: "map_of (where_generated this pk fe) ''ExpressionAttributeValues'' =
      Some (Obj (writeAll (concat (map valueWrites es)) []))"
    by (simp only: es_def where_generated_values)
  have e: "writeAll (concat (map valueWrites es)) [] = [] \<longleftrightarrow> es = []"
    by (simp only: writeAll_eq_Nil [OF valueWrites_no_proto] concat_valueWrites_Nil)
  show ?thesis
    unfolding es_def [symmetric]
    by (simp add: r map_of_prune_values getProp_def g e)
qed

lemma where_request_key_condition:
  assumes "\<not> isArrayLike (Obj keySpec)"
  shows "map_of (snd (where_request this (Obj keySpec) fe Undefined)) ''KeyConditionExpression'' =
     Some (Str (join (map (\<lambda>(name, value). keyClause name value) keySpec) '' AND ''))"
proof -
  have f: "''KeyConditionExpression'' \<noteq> ''ExpressionAttributeNames''"
    "''KeyConditionExpression'' \<noteq> ''ExpressionAttributeValues''"
    by simp_all
  have c: "map (\<lambda>e. keyClause (keyString (snd e)) (fst e)) (forEachEntries (Obj keySpec)) =
      map (\<lambda>(name, value). keyClause name value) keySpec"
    by (simp only: forEachEntries_Obj [OF assms] clauses_plain)
  show ?thesis
    by (simp add: where_request_field [OF f] configWrites_falsy where_generated_other [OF f] c)
qed

lemma where_request_filter_expression:
  assumes "truthy condition" and "truthy keys"
  shows "map_of (snd (where_request this pk (Obj [(''condition'', condition), (''keys'', keys)]) Undefined))
           ''FilterExpression'' = Some condition"
proof -
  have f: "''FilterExpression'' \<noteq> ''ExpressionAttributeNames''"
    "''FilterExpression'' \<noteq> ''ExpressionAttributeValues''"
    by simp_all
  show ?thesis
    using assms
    by (simp add: where_request_field [OF f] configWrites_falsy where_generated_other [OF f]
          getMember_def getProp_def)
qed

lemma filterEntries_Undefined: "filterEntries Undefined = []"
  by (simp add: filterEntries_def)

lemma scalar_bindings:
  assumes "\<forall>(name, value) \<in> set keySpec. \<not> isBetween value"
  shows "concat (map (\<lambda>(name, value). valueBindings name value) keySpec) =
     map (\<lambda>(name, value). ('':'' @ name, value)) keySpec"
  using assms by (induction keySpec) (auto simp: valueBindings_def)

section \<open>The request of where for a plain key specification\<close>

lemma where_request_plain_names:
  assumes "\<not> isArrayLike (Obj keySpec)" and "distinct (map fst keySpec)" and "keySpec \<noteq> []"
  shows "getProp (snd (where_request this (Obj keySpec) Undefined Undefined)) ''ExpressionAttributeNames'' =
     Obj (map (nameBinding \<circ> fst) keySpec)"
proof -
  have es: "forEachEntries (Obj keySpec) @ filterEntries Undefined = map (\<lambda>(k, v). (v, Name k)) keySpec"
    by (simp add: forEachEntries_Obj [OF assms(1)] filterEntries_Undefined)
  have "map (\<lambda>(k, v). (v, Name k)) keySpec \<noteq> []" using assms(3) by simp
  then show ?thesis
    unfolding getProp_def where_request_names es nameWrites_plain names_plain [OF assms(2)]
    by simp
qed

lemma where_request_plain_values:
  assumes "\<not> isArrayLike (Obj keySpec)" and "keySpec \<noteq> []"
  shows "getProp (snd (where_request this (Obj keySpec) Undefined Undefined)) ''ExpressionAttributeValues'' =
     Obj (writeAll (keyValueBindings keySpec) [])"
proof -
  have es: "forEachEntries (Obj keySpec) @ filterEntries Undefined = map (\<lambda>(k, v). (v, Name k)) keySpec"
    by (simp add: forEachEntries_Obj [OF assms(1)] filterEntries_Undefined)
  have "map (\<lambda>(k, v). (v, Name k)) keySpec \<noteq> []" using assms(2) by simp
  then show ?thesis
    unfolding getProp_def where_request_values es valueWrites_plain keyValueBindings_def
    by simp
qed

lemma scalar_keyValueBindings:
  assumes "\<forall>(name, value) \<in> set keySpec. \<not> isBetween value"
  shows "keyValueBindings keySpec = map (\<lambda>(name, value). ('':'' @ name, value)) keySpec"
  unfolding keyValueBindings_def by (rule scalar_bindings [OF assms])

lemma writeAll_distinct_writes:
  "distinct (map fst ws) \<Longrightarrow> \<forall>w \<in> set ws. plainName (fst w) \<Longrightarrow> writeAll ws [] = ws"
  using writeAll_fresh [of ws "[]"] by simp

section \<open>Evaluating a write\<close>

lemmas setProp_eval = setProp_def hasProp_def isIndex_def isDigit_def

lemmas upperFirst_eval = isAscii_def toUpperCase_def

section \<open>Small evaluations\<close>

lemma not_index_letter: "\<not> isDigit c \<Longrightarrow> \<not> isIndex (c # k)"
  by (simp add: isIndex_def)

lemma where_generated_nothing: "where_generated this Undefined Undefined = where_initial this"
  by (simp add: where_generated_def where_key_def where_filter_def)

section \<open>Arrays of another length than 2\<close>








chapter \<open>The claims\<close>

section \<open>C1: the constructor\<close>

text \<open>
  C1 says that constructing a handle with \<open>(tableName, region)\<close> stores the table name
  and configures the store client with the given region. The handle does store the
  name, and no operation assigns to a field of \<open>this\<close> (every operation of the model
  only reads the handle). The client, however, is constructed with the options object
  \<open>{ tableRegion: region }\<close>: the region travels under the name \<open>tableRegion\<close>, and the
  options have no property \<open>region\<close>, the name under which \<open>aws-sdk\<close> reads the region of
  a service client.
\<close>

theorem constructor_passes_tableRegion:
  "tableName (constructor name region) = name
   \<and> options (dynamoClient (constructor name region)) = [(''tableRegion'', Str region)]
   \<and> \<not> hasProp (options (dynamoClient (constructor name region))) ''region''"
  by (simp add: constructor_def hasProp_def)

section \<open>C2: empty placeholder mappings\<close>

text \<open>
  C2 says that \<open>where\<close> and \<open>update\<close> both leave \<open>ExpressionAttributeNames\<close> and
  \<open>ExpressionAttributeValues\<close> out of the request when the accumulated mapping is
  empty. \<open>where\<close> deletes them (lines 127-133); \<open>update\<close> has no such step: for an
  empty update specification it sends both as empty objects.
\<close>

theorem update_sends_empty_placeholders:
  "update_request this primaryKey (Obj []) Undefined =
     (Update,
      [(''TableName'', Str (tableName this)),
       (''Key'', primaryKey),
       (''ExpressionAttributeNames'', Obj []),
       (''ExpressionAttributeValues'', Obj []),
       (''ReturnValues'', Str ''ALL_NEW''),
       (''UpdateExpression'', Str ''set '')])"
  by (simp add: update_request_def forEachEntries_def getProp_def setProp_eval)

section \<open>C3: pruning and merging in \<open>where\<close>\<close>

text \<open>
  C3 says that \<open>where\<close> prunes the empty placeholder mappings after merging the
  override configuration: the dispatched parameters would be
  \<open>pruneEmptyPlaceholders (mergeOverrides generated config)\<close>. The code prunes first
  (lines 127-133) and merges afterwards (lines 135-137), so an override can put an
  empty mapping back into the request.
\<close>

theorem where_merge_then_prune_counterexample:
  "snd (where_request (constructor ''users'' ''eu-west-1'') Undefined Undefined
          (Obj [(''expressionAttributeNames'', Obj [])]))
   \<noteq> pruneEmptyPlaceholders
       (mergeOverrides (where_generated (constructor ''users'' ''eu-west-1'') Undefined Undefined)
          (Obj [(''expressionAttributeNames'', Obj [])]))"
proof -
  have w: "configWrites (Obj [(''expressionAttributeNames'', Obj [])]) =
      [(''ExpressionAttributeNames'', Obj [])]"
    by (simp add: configWrites_single upperFirst_eval)
  have p: "pruneEmptyPlaceholders (where_initial (constructor ''users'' ''eu-west-1'')) =
      [(''TableName'', Str ''users''), (''ReturnConsumedCapacity'', Str ''TOTAL'')]"
    by (simp add: pruneEmptyPlaceholders_def where_initial_def getProp_def deleteProp_def
          constructor_def)
  have a: "setProp [(''TableName'', Str ''users''), (''ReturnConsumedCapacity'', Str ''TOTAL'')]
        ''ExpressionAttributeNames'' (Obj []) =
      [(''TableName'', Str ''users''), (''ReturnConsumedCapacity'', Str ''TOTAL''),
       (''ExpressionAttributeNames'', Obj [])]"
    by (rule setProp_fresh [THEN trans]) (simp_all add: not_index_letter isDigit_def)
  have l: "snd (where_request (constructor ''users'' ''eu-west-1'') Undefined Undefined
          (Obj [(''expressionAttributeNames'', Obj [])])) =
      [(''TableName'', Str ''users''), (''ReturnConsumedCapacity'', Str ''TOTAL''),
       (''ExpressionAttributeNames'', Obj [])]"
    by (simp add: where_request_params where_generated_nothing p assignConfig_writeAll w
          writeAll_Cons writeAll_Nil a)
  have m: "setProp (where_initial (constructor ''users'' ''eu-west-1''))
        ''ExpressionAttributeNames'' (Obj []) = where_initial (constructor ''users'' ''eu-west-1'')"
    by (simp add: setProp_def hasProp_def where_initial_def)
  have r: "pruneEmptyPlaceholders
       (mergeOverrides (where_generated (constructor ''users'' ''eu-west-1'') Undefined Undefined)
          (Obj [(''expressionAttributeNames'', Obj [])])) =
      [(''TableName'', Str ''users''), (''ReturnConsumedCapacity'', Str ''TOTAL'')]"
    by (simp add: mergeOverrides_def where_generated_nothing assignConfig_writeAll w
          writeAll_Cons writeAll_Nil m p)
  show ?thesis unfolding l r by simp
qed

text \<open>
  C3 as amended: for every key specification, filter specification and override
  configuration, the parameters \<open>where\<close> dispatches are the generated parameters,
  pruned of empty placeholder mappings and then merged with the overrides.
\<close>

theorem where_prunes_then_merges:
  "snd (where_request this primaryKey filterExpression config) =
     mergeOverrides (pruneEmptyPlaceholders (where_generated this primaryKey filterExpression)) config"
  by (simp add: where_request_params mergeOverrides_def)

section \<open>C4: the key condition\<close>

text \<open>
  C4 says that every entry of a key specification leaves its bindings in the
  placeholder mappings: \<open>:name \<rightarrow> v\<close> for a scalar, \<open>:nameStart\<close> and \<open>:nameEnd\<close> for a
  range. The value placeholders of different attributes can coincide, and then the
  later entry overwrites the earlier binding: in \<open>{a: [1, 2], aStart: 5}\<close> the range
  \<open>a\<close> and the scalar \<open>aStart\<close> both write \<open>:aStart\<close>, which ends up bound to 5 and
  not to the first element of the range.
\<close>

theorem key_condition_shared_placeholder_counterexample:
  "getMember
     (getProp (snd (where_request (constructor ''users'' ''eu-west-1'')
                      (Obj [(''a'', Arr [Num 1, Num 2]), (''aStart'', Num 5)]) Undefined Undefined))
        ''ExpressionAttributeValues'')
     '':aStart'' = Num 5
   \<and> Num 5 \<noteq> elementAt (Arr [Num 1, Num 2]) 0"
proof -
  have "\<not> isArrayLike (Obj [(''a'', Arr [Num 1, Num 2]), (''aStart'', Num 5)])"
    by (simp add: getProp_def)
  then have "getProp (snd (where_request (constructor ''users'' ''eu-west-1'')
                      (Obj [(''a'', Arr [Num 1, Num 2]), (''aStart'', Num 5)]) Undefined Undefined))
        ''ExpressionAttributeValues'' =
      Obj (writeAll (keyValueBindings [(''a'', Arr [Num 1, Num 2]), (''aStart'', Num 5)]) [])"
    by (rule where_request_plain_values) simp
  moreover have "keyValueBindings [(''a'', Arr [Num 1, Num 2]), (''aStart'', Num 5)] =
      [('':aStart'', Num 1), ('':aEnd'', Num 2), ('':aStart'', Num 5)]"
    by (simp add: keyValueBindings_def valueBindings_def isBetween_def)
  moreover have "writeAll [('':aStart'', Num 1), ('':aEnd'', Num 2), ('':aStart'', Num 5)] [] =
      [('':aStart'', Num 5), ('':aEnd'', Num 2)]"
    by (simp add: writeAll_def setProp_eval)
  ultimately show ?thesis by (simp add: getMember_def getProp_def)
qed

text \<open>
  C4 as amended, for every key specification that \<open>forEach\<close> visits entry by entry
  (no \<open>length\<close> property holding a valid array length), without overrides: the key
  condition is the clauses of the entries in the input's order, joined with
  \<open>" AND "\<close>, where a scalar entry gives \<open>#name = :name\<close> and a 2-element array gives
  \<open>#name BETWEEN :nameStart AND :nameEnd\<close>; the name placeholders are exactly
  \<open>#name \<rightarrow> name\<close>, one per attribute, in order; the value placeholders are the
  bindings \<open>:name \<rightarrow> v\<close>, \<open>:nameStart \<rightarrow> v[0]\<close>, \<open>:nameEnd \<rightarrow> v[1]\<close> written in order, so
  each placeholder occurs once and holds what the last entry writing it bound. When
  the placeholders of the entries are pairwise different, and in particular when all
  values are scalars, the value placeholders are exactly these bindings, each once.
\<close>

theorem key_condition_built_in_order:
  assumes "\<not> isArrayLike (Obj keySpec)" and "distinct (map fst keySpec)"
  shows
   "getProp (snd (where_request this (Obj keySpec) filterExpression Undefined)) ''KeyConditionExpression'' =
       Str (join (map (\<lambda>(name, value). keyClause name value) keySpec) '' AND '')
    \<and> (keySpec \<noteq> [] \<longrightarrow>
         getProp (snd (where_request this (Obj keySpec) Undefined Undefined)) ''ExpressionAttributeNames'' =
           Obj (map (nameBinding \<circ> fst) keySpec)
         \<and> getProp (snd (where_request this (Obj keySpec) Undefined Undefined)) ''ExpressionAttributeValues'' =
           Obj (writeAll (keyValueBindings keySpec) []))
    \<and> distinct (map fst (writeAll (keyValueBindings keySpec) []))
    \<and> map_of (writeAll (keyValueBindings keySpec) []) = map_of (rev (keyValueBindings keySpec))
    \<and> (distinct (map fst (keyValueBindings keySpec)) \<longrightarrow>
         writeAll (keyValueBindings keySpec) [] = keyValueBindings keySpec)
    \<and> ((\<forall>(name, value) \<in> set keySpec. \<not> isBetween value) \<longrightarrow>
         writeAll (keyValueBindings keySpec) [] = map (\<lambda>(name, value). ('':'' @ name, value)) keySpec)"
proof -
  have "getProp (snd (where_request this (Obj keySpec) filterExpression Undefined)) ''KeyConditionExpression'' =
       Str (join (map (\<lambda>(name, value). keyClause name value) keySpec) '' AND '')"
    by (simp add: getProp_def where_request_key_condition [OF assms(1)])
  moreover have "distinct (map fst (writeAll (keyValueBindings keySpec) []))"
    by (rule distinct_writeAll) simp
  moreover have "map_of (writeAll (keyValueBindings keySpec) []) = map_of (rev (keyValueBindings keySpec))"
    using keyValueBindings_plain [of keySpec]
    by (intro map_of_writeAll [where obj = "[]", simplified]) (simp add: plainName_def)
  moreover have "writeAll (keyValueBindings keySpec) [] = map (\<lambda>(name, value). ('':'' @ name, value)) keySpec"
    if "\<forall>(name, value) \<in> set keySpec. \<not> isBetween value"
    unfolding scalar_keyValueBindings [OF that] by (rule updateValues_plain [OF assms(2)])
  ultimately show ?thesis
    using where_request_plain_names [OF assms] where_request_plain_values [OF assms(1)]
      writeAll_distinct_writes [OF _ keyValueBindings_plain, of keySpec]
    by blast
qed

theorem key_condition_built_in_order_witness:
  "\<not> isArrayLike (Obj [(''status'', Str ''active''), (''age'', Arr [Num 18, Num 30])])
   \<and> distinct (map fst [(''status'', Str ''active''), (''age'', Arr [Num 18, Num 30])])
   \<and> getProp (snd (where_request (constructor ''users'' ''eu-west-1'')
                     (Obj [(''status'', Str ''active''), (''age'', Arr [Num 18, Num 30])])
                     Undefined Undefined)) ''KeyConditionExpression'' =
       Str ''#status = :status AND #age BETWEEN :ageStart AND :ageEnd''
   \<and> getProp (snd (where_request (constructor ''users'' ''eu-west-1'')
                     (Obj [(''status'', Str ''active''), (''age'', Arr [Num 18, Num 30])])
                     Undefined Undefined)) ''ExpressionAttributeNames'' =
       Obj [(''#status'', Str ''status''), (''#age'', Str ''age'')]
   \<and> getProp (snd (where_request (constructor ''users'' ''eu-west-1'')
                     (Obj [(''status'', Str ''active''), (''age'', Arr [Num 18, Num 30])])
                     Undefined Undefined)) ''ExpressionAttributeValues'' =
       Obj [('':status'', Str ''active''), ('':ageStart'', Num 18), ('':ageEnd'', Num 30)]"
proof -
  have h1: "\<not> isArrayLike (Obj [(''status'', Str ''active''), (''age'', Arr [Num 18, Num 30])])"
    by (simp add: getProp_def)
  have h2: "distinct (map fst [(''status'', Str ''active''), (''age'', Arr [Num 18, Num 30])])"
    by simp
  have b: "keyValueBindings [(''status'', Str ''active''), (''age'', Arr [Num 18, Num 30])] =
      [('':status'', Str ''active''), ('':ageStart'', Num 18), ('':ageEnd'', Num 30)]"
    by (simp add: keyValueBindings_def valueBindings_def isBetween_def)
  show ?thesis
    using h1 h2
      key_condition_built_in_order [OF h1 h2, of "constructor ''users'' ''eu-west-1''" Undefined]
    by (simp add: b keyClause_def nameBinding_def isBetween_def)
qed

section \<open>C5: query or scan\<close>

text \<open>
  C5: \<open>where\<close> calls the query primitive exactly when a key specification is present
  (its first argument is truthy, as every object is) and the scan primitive otherwise,
  and the promise it returns is settled by that one call. Without overrides the
  request carries a \<open>KeyConditionExpression\<close> in the first case and none in the
  second; \<open>where()\<close> with no arguments calls scan with the table name and the
  capacity flag only.
\<close>

theorem where_query_or_scan:
  fixes store :: "'s sdk"
  shows
  "where_op store this primaryKey filterExpression config s =
     (let ((error, data), s') =
            store (dynamoClient this) (if truthy primaryKey then Query else Scan)
              (snd (where_request this primaryKey filterExpression config)) s
      in (if truthy error then Rejected error else Resolved data, s'))
   \<and> where_op store this (Obj keySpec) filterExpression config s =
     (let ((error, data), s') =
            store (dynamoClient this) Query
              (snd (where_request this (Obj keySpec) filterExpression config)) s
      in (if truthy error then Rejected error else Resolved data, s'))
   \<and> where_op store this Undefined filterExpression config s =
     (let ((error, data), s') =
            store (dynamoClient this) Scan
              (snd (where_request this Undefined filterExpression config)) s
      in (if truthy error then Rejected error else Resolved data, s'))
   \<and> where_op store this Undefined Undefined Undefined s =
     (let ((error, data), s') =
            store (dynamoClient this) Scan
              [(''TableName'', Str (tableName this)), (''ReturnConsumedCapacity'', Str ''TOTAL'')] s
      in (if truthy error then Rejected error else Resolved data, s'))
   \<and> fst (where_request this primaryKey filterExpression config) =
       (if truthy primaryKey then Query else Scan)
   \<and> hasProp (snd (where_request this (Obj keySpec) filterExpression Undefined)) ''KeyConditionExpression''
   \<and> \<not> hasProp (snd (where_request this Undefined filterExpression Undefined)) ''KeyConditionExpression''"
proof -
  have f: "''KeyConditionExpression'' \<noteq> ''ExpressionAttributeNames''"
    "''KeyConditionExpression'' \<noteq> ''ExpressionAttributeValues''"
    "''KeyConditionExpression'' \<noteq> ''__proto__''"
    by simp_all
  have op: "where_op store this pk fe cfg s =
     (let ((error, data), s') =
            store (dynamoClient this) (if truthy pk then Query else Scan)
              (snd (where_request this pk fe cfg)) s
      in (if truthy error then Rejected error else Resolved data, s'))" for pk fe cfg
    by (simp add: where_op_def dispatch_def callback_def split_def where_request_op Let_def)
  have none: "snd (where_request this Undefined Undefined Undefined) =
       [(''TableName'', Str (tableName this)), (''ReturnConsumedCapacity'', Str ''TOTAL'')]"
    by (simp add: where_request_params where_generated_nothing assignConfig_falsy
          pruneEmptyPlaceholders_def where_initial_def getProp_def deleteProp_def)
  have "hasProp (snd (where_request this (Obj keySpec) filterExpression Undefined)) ''KeyConditionExpression''"
    by (simp add: hasProp_def where_request_field [OF f] configWrites_falsy
          where_generated_other [OF f(1,2)])
  moreover have "\<not> hasProp (snd (where_request this Undefined filterExpression Undefined)) ''KeyConditionExpression''"
    by (simp add: hasProp_def where_request_field [OF f] configWrites_falsy
          where_generated_other [OF f(1,2)] where_initial_def)
  moreover have "where_op store this Undefined Undefined Undefined s =
     (let ((error, data), s') =
            store (dynamoClient this) Scan
              [(''TableName'', Str (tableName this)), (''ReturnConsumedCapacity'', Str ''TOTAL'')] s
      in (if truthy error then Rejected error else Resolved data, s'))"
    using op [of Undefined Undefined Undefined] by (simp add: none)
  moreover have "where_op store this (Obj keySpec) filterExpression config s =
     (let ((error, data), s') =
            store (dynamoClient this) Query
              (snd (where_request this (Obj keySpec) filterExpression config)) s
      in (if truthy error then Rejected error else Resolved data, s'))"
    using op [of "Obj keySpec" filterExpression config] by simp
  moreover have "where_op store this Undefined filterExpression config s =
     (let ((error, data), s') =
            store (dynamoClient this) Scan
              (snd (where_request this Undefined filterExpression config)) s
      in (if truthy error then Rejected error else Resolved data, s'))"
    using op [of Undefined filterExpression config] by simp
  ultimately show ?thesis
    using op [of primaryKey filterExpression config] by (simp only: where_request_op simp_thms)
qed

section \<open>C6: the request of \<open>update\<close>\<close>

text \<open>
  C6 says that \<open>update(keySpec, updateSpec)\<close> builds \<open>Key\<close>, an \<open>UpdateExpression\<close>
  \<open>set #name = :name, ...\<close> with one assignment per entry of the update
  specification, the placeholder mappings binding each entry's name and value, and
  \<open>ReturnValues: "ALL_NEW"\<close>. That is what the code builds for every update
  specification \<open>forEach\<close> visits entry by entry (\<open>update_request_plain\<close>, and
  \<open>update_request_bob\<close> for the example of the claim). An update specification with
  an attribute \<open>length\<close> whose value is a valid array length is visited by index
  instead: for \<open>{length: 2}\<close> the request names the attributes \<open>0\<close> and \<open>1\<close>, binds
  both values to \<open>undefined\<close>, and mentions neither \<open>length\<close> nor \<open>2\<close>.
\<close>

theorem update_length_attribute:
  "update_request this primaryKey (Obj [(''length'', Num 2)]) Undefined =
     (Update,
      [(''TableName'', Str (tableName this)),
       (''Key'', primaryKey),
       (''ExpressionAttributeNames'', Obj [(''#0'', Num 0), (''#1'', Num 1)]),
       (''ExpressionAttributeValues'', Obj [('':0'', Undefined), ('':1'', Undefined)]),
       (''ReturnValues'', Str ''ALL_NEW''),
       (''UpdateExpression'', Str ''set #0 = :0, #1 = :1'')])"
  by (rule update_request_length)

section \<open>C7: \<open>mergeOverrides\<close>\<close>

text \<open>
  C7 says that the object \<open>mergeOverrides\<close> returns holds, for each override entry
  \<open>(key, value)\<close>, the value under the capitalised key. Two keys that differ only
  in the case of their first character name the same field, and the later entry
  overwrites the earlier one: for \<open>{foo: 1, Foo: 2}\<close> the field \<open>Foo\<close> holds 2, not the
  value 1 of the entry \<open>foo\<close>.
\<close>

theorem mergeOverrides_same_capital_counterexample:
  "getProp (mergeOverrides [] (Obj [(''foo'', Num 1), (''Foo'', Num 2)])) (upperFirst ''foo'') \<noteq> Num 1"
proof -
  have "\<not> isArrayLike (Obj [(''foo'', Num 1), (''Foo'', Num 2)])"
    by (simp add: getProp_def)
  then have "mergeOverrides [] (Obj [(''foo'', Num 1), (''Foo'', Num 2)]) =
      writeAll [(''Foo'', Num 1), (''Foo'', Num 2)] []"
    by (simp add: mergeOverrides_def assignConfig_writeAll configWrites_Obj overrideWrites_def
          upperFirst_eval)
  also have "\<dots> = [(''Foo'', Num 2)]"
    by (simp add: writeAll_def setProp_eval)
  finally show ?thesis by (simp add: getProp_def upperFirst_eval)
qed

text \<open>
  C7 as amended, for every generated parameter object and every override
  configuration that \<open>forEach\<close> visits entry by entry (it has no \<open>length\<close> property
  holding a valid array length) and none of whose keys is capitalised to \<open>__proto__\<close>
  (assigning that name sets the prototype and creates no field): an own field of the
  returned object holds the value of the last override entry whose capitalised key
  names it, and the generated value when there is none. Hence every entry's value is
  found under its capitalised key when the capitalised keys are pairwise different,
  and a field no override names is unchanged. The returned object is a new one: in
  the store, the object at the argument's address is what it was.
\<close>

theorem mergeOverrides_last_entry_wins:
  assumes "\<not> isArrayLike (Obj overrideConfig)"
    and "''__proto__'' \<notin> fst ` set (overrideWrites overrideConfig)"
  shows "map_of (mergeOverrides generatedParams (Obj overrideConfig)) field =
       (case map_of (rev (overrideWrites overrideConfig)) field of
          None \<Rightarrow> map_of generatedParams field
        | Some v \<Rightarrow> Some v)
   \<and> (distinct (map fst (overrideWrites overrideConfig)) \<longrightarrow>
        (\<forall>(k, v) \<in> set overrideConfig.
           getProp (mergeOverrides generatedParams (Obj overrideConfig)) (upperFirst k) = v))
   \<and> (field \<notin> fst ` set (overrideWrites overrideConfig) \<longrightarrow>
        map_of (mergeOverrides generatedParams (Obj overrideConfig)) field = map_of generatedParams field)
   \<and> (params < length hp \<longrightarrow>
        (case assignConfig_heap hp params (Obj overrideConfig) of
           (hp', paramsToReturn) \<Rightarrow>
             paramsToReturn \<noteq> params
             \<and> hp' ! params = hp ! params
             \<and> take (length hp) hp' = hp
             \<and> hp' ! paramsToReturn = mergeOverrides (hp ! params) (Obj overrideConfig)))"
proof -
  have "\<forall>(k, v) \<in> set overrideConfig.
           getProp (mergeOverrides generatedParams (Obj overrideConfig)) (upperFirst k) = v"
    if "distinct (map fst (overrideWrites overrideConfig))"
    using mergeOverrides_entry [OF assms that] by blast
  moreover have "case assignConfig_heap hp params (Obj overrideConfig) of
           (hp', paramsToReturn) \<Rightarrow>
             paramsToReturn \<noteq> params
             \<and> hp' ! params = hp ! params
             \<and> take (length hp) hp' = hp
             \<and> hp' ! paramsToReturn = mergeOverrides (hp ! params) (Obj overrideConfig)"
    if "params < length hp"
    using that by (simp add: assignConfig_heap_result mergeOverrides_def nth_append)
  ultimately show ?thesis
    using mergeOverrides_plain [OF assms] mergeOverrides_untouched [OF assms] by blast
qed

theorem mergeOverrides_last_entry_wins_witness:
  "\<not> isArrayLike (Obj [(''consistentRead'', Bool False), (''limit'', Num 10)])
   \<and> ''__proto__'' \<notin> fst ` set (overrideWrites [(''consistentRead'', Bool False), (''limit'', Num 10)])
   \<and> getProp (mergeOverrides [(''TableName'', Str ''users''), (''ConsistentRead'', Bool True)]
                 (Obj [(''consistentRead'', Bool False), (''limit'', Num 10)])) ''ConsistentRead'' = Bool False
   \<and> getProp (mergeOverrides [(''TableName'', Str ''users''), (''ConsistentRead'', Bool True)]
                 (Obj [(''consistentRead'', Bool False), (''limit'', Num 10)])) ''Limit'' = Num 10
   \<and> map_of (mergeOverrides [(''TableName'', Str ''users''), (''ConsistentRead'', Bool True)]
                 (Obj [(''consistentRead'', Bool False), (''limit'', Num 10)])) ''TableName'' = Some (Str ''users'')
   \<and> fst (assignConfig_heap [[(''TableName'', Str ''users''), (''ConsistentRead'', Bool True)]] 0
             (Obj [(''consistentRead'', Bool False), (''limit'', Num 10)]))
       ! 0 = [(''TableName'', Str ''users''), (''ConsistentRead'', Bool True)]"
proof -
  have h: "\<not> isArrayLike (Obj [(''consistentRead'', Bool False), (''limit'', Num 10)])"
    by (simp add: getProp_def)
  have w: "overrideWrites [(''consistentRead'', Bool False), (''limit'', Num 10)] =
      [(''ConsistentRead'', Bool False), (''Limit'', Num 10)]"
    by (simp add: overrideWrites_def upperFirst_eval)
  have p: "''__proto__'' \<notin> fst ` set (overrideWrites [(''consistentRead'', Bool False), (''limit'', Num 10)])"
    by (simp add: w)
  show ?thesis
    using h p
      mergeOverrides_last_entry_wins [OF h p,
        of "[(''TableName'', Str ''users''), (''ConsistentRead'', Bool True)]" "''TableName''"
           0 "[[(''TableName'', Str ''users''), (''ConsistentRead'', Bool True)]]"]
    by (simp add: w getProp_def split_def upperFirst_eval)
qed

section \<open>C8: the store's outcome is the operation's outcome\<close>

text \<open>
  C8: every operation makes one call of its store primitive; when the call completes
  with an error, the promise is rejected with that very error, and otherwise it is
  resolved with the data the store returned. The state the store is left in is the
  state after that one call.
\<close>

theorem store_outcome_is_the_result:
  fixes store :: "'s sdk"
  shows
  "find_op store this primaryKey config s =
     (let ((error, data), s') = store (dynamoClient this) Get (snd (find_request this primaryKey config)) s
      in (if truthy error then Rejected error else Resolved data, s'))
   \<and> where_op store this primaryKey filterExpression config s =
     (let ((error, data), s') =
            store (dynamoClient this) (fst (where_request this primaryKey filterExpression config))
              (snd (where_request this primaryKey filterExpression config)) s
      in (if truthy error then Rejected error else Resolved data, s'))
   \<and> getAll store this config s =
     (let ((error, data), s') = store (dynamoClient this) Scan (snd (getAll_request this config)) s
      in (if truthy error then Rejected error else Resolved data, s'))
   \<and> create store this createData config s =
     (let ((error, data), s') = store (dynamoClient this) Put (snd (create_request this createData config)) s
      in (if truthy error then Rejected error else Resolved data, s'))
   \<and> batchCreate store this items config s =
     (let ((error, data), s') =
            store (dynamoClient this) BatchWrite (snd (batchCreate_request this items config)) s
      in (if truthy error then Rejected error else Resolved data, s'))
   \<and> update_op store this primaryKey updateData config s =
     (let ((error, data), s') =
            store (dynamoClient this) Update (snd (update_request this primaryKey updateData config)) s
      in (if truthy error then Rejected error else Resolved data, s'))
   \<and> destroy store this primaryKey config s =
     (let ((error, data), s') = store (dynamoClient this) Delete (snd (destroy_request this primaryKey config)) s
      in (if truthy error then Rejected error else Resolved data, s'))"
  by (simp add: find_op_def where_op_def getAll_def create_def batchCreate_def update_op_def
        destroy_def dispatch_def callback_def find_request_def getAll_request_def
        create_request_def batchCreate_request_def update_request_def destroy_request_def
        Let_def split_def)

section \<open>C9: defaults\<close>

text \<open>
  C9: \<open>find\<close> sets \<open>ConsistentRead: true\<close> and \<open>ReturnConsumedCapacity: "TOTAL"\<close>,
  \<open>where\<close> and \<open>getAll\<close> set \<open>ReturnConsumedCapacity: "TOTAL"\<close>; each of these
  fields holds its default unless the override configuration writes it, and then it
  holds the value the configuration wrote last.
\<close>

theorem defaults_set_and_overridable:
  "getProp (snd (find_request this primaryKey config)) ''ConsistentRead'' =
       (case map_of (rev (configWrites config)) ''ConsistentRead'' of None \<Rightarrow> Bool True | Some v \<Rightarrow> v)
   \<and> getProp (snd (find_request this primaryKey config)) ''ReturnConsumedCapacity'' =
       (case map_of (rev (configWrites config)) ''ReturnConsumedCapacity'' of None \<Rightarrow> Str ''TOTAL'' | Some v \<Rightarrow> v)
   \<and> getProp (snd (where_request this primaryKey filterExpression config)) ''ReturnConsumedCapacity'' =
       (case map_of (rev (configWrites config)) ''ReturnConsumedCapacity'' of None \<Rightarrow> Str ''TOTAL'' | Some v \<Rightarrow> v)
   \<and> getProp (snd (getAll_request this config)) ''ReturnConsumedCapacity'' =
       (case map_of (rev (configWrites config)) ''ReturnConsumedCapacity'' of None \<Rightarrow> Str ''TOTAL'' | Some v \<Rightarrow> v)
   \<and> getProp (snd (find_request this primaryKey Undefined)) ''ConsistentRead'' = Bool True
   \<and> getProp (snd (find_request this primaryKey Undefined)) ''ReturnConsumedCapacity'' = Str ''TOTAL''
   \<and> getProp (snd (where_request this primaryKey filterExpression Undefined)) ''ReturnConsumedCapacity'' = Str ''TOTAL''
   \<and> getProp (snd (getAll_request this Undefined)) ''ReturnConsumedCapacity'' = Str ''TOTAL''
   \<and> getProp (snd (find_request this primaryKey (Obj [(''consistentRead'', v)]))) ''ConsistentRead'' = v
   \<and> getProp (snd (find_request this primaryKey (Obj [(''returnConsumedCapacity'', v)]))) ''ReturnConsumedCapacity'' = v
   \<and> getProp (snd (where_request this primaryKey filterExpression (Obj [(''returnConsumedCapacity'', v)])))
         ''ReturnConsumedCapacity'' = v
   \<and> getProp (snd (getAll_request this (Obj [(''returnConsumedCapacity'', v)]))) ''ReturnConsumedCapacity'' = v"
proof -
  have f: "''ReturnConsumedCapacity'' \<noteq> ''ExpressionAttributeNames''"
    "''ReturnConsumedCapacity'' \<noteq> ''ExpressionAttributeValues''"
    "''ReturnConsumedCapacity'' \<noteq> ''__proto__''"
    by simp_all
  have g: "''ConsistentRead'' \<noteq> ''__proto__''"
    by simp
  have w: "map_of (snd (where_request this primaryKey filterExpression cfg)) ''ReturnConsumedCapacity'' =
      (case map_of (rev (configWrites cfg)) ''ReturnConsumedCapacity'' of
         None \<Rightarrow> Some (Str ''TOTAL'') | Some v \<Rightarrow> Some v)" for cfg
    by (simp add: where_request_field [OF f] where_generated_other [OF f(1,2)] where_initial_def
          cong: option.case_cong)
  have c1: "configWrites (Obj [(''consistentRead'', v)]) = [(''ConsistentRead'', v)]"
    by (simp add: configWrites_single upperFirst_eval)
  have c2: "configWrites (Obj [(''returnConsumedCapacity'', v)]) = [(''ReturnConsumedCapacity'', v)]"
    by (simp add: configWrites_single upperFirst_eval)
  have c0: "configWrites Undefined = []"
    by (simp add: configWrites_falsy)
  show ?thesis
    unfolding getProp_def find_request_field [OF g] find_request_field [OF f(3)]
      getAll_request_field [OF f(3)] w c0 c1 c2
    by (simp split: option.splits)
qed

section \<open>C10: arrays of another length than 2\<close>




end
